theory Spec2Isabelle
  imports Main "HOL-Library.Char_ord" "HOL-Library.List_Lexorder" "HOL-Library.AList"
    "HOL-Library.Word"
begin

section \<open>nodejs-tarballs: the dependency walk and its consumers\<close>

text \<open>
  A shallow embedding of \<^verbatim>\<open>nodejs-tarballs.py\<close>. Python strings are \<open>string\<close>s whose
  characters are ASCII; a JSON object is an association list read as a dictionary
  (\<open>map_of\<close> for a lookup, the keys without duplicates), the global \<^verbatim>\<open>MODULE_MAP\<close> is an
  association list in insertion order, a Python \<^verbatim>\<open>set\<close> of strings is a \<open>string set\<close>,
  and every exception is a value: a library function returns \<open>py_error + 'a\<close>, and a
  function of the program that mutates the globals returns \<open>(py_error \<times> state) + state\<close>,
  the left side carrying the globals as they were when the exception was raised.
\<close>

subsection \<open>Exceptions and log records\<close>

datatype py_error =
    KeyError string
  | ValueError string
  | binascii_Error string
  | HTTPError nat
  | URLError string
  | OSError string
  | FileNotFoundError string

datatype level = DEBUG | INFO | WARNING | ERROR

text \<open>A call of \<^verbatim>\<open>logging.<level>(fmt, *args)\<close>: level, format string, arguments.\<close>

type_synonym log_record = "level \<times> string \<times> string list"

subsection \<open>Python string operations\<close>

text \<open>\<^verbatim>\<open>s.split(c, n)\<close> for a one-character separator: at most \<open>n\<close> splits, from the left.\<close>

fun split_max :: "char \<Rightarrow> nat \<Rightarrow> string \<Rightarrow> string list" where
  "split_max c 0 s = [s]"
| "split_max c (Suc n) s =
     (if c \<in> set s
      then takeWhile (\<lambda>x. x \<noteq> c) s # split_max c n (tl (dropWhile (\<lambda>x. x \<noteq> c) s))
      else [s])"

text \<open>\<^verbatim>\<open>s.split(c)\<close>: no limit (a string of length \<open>n\<close> has at most \<open>n\<close> separators).\<close>

definition split_all :: "char \<Rightarrow> string \<Rightarrow> string list" where
  "split_all c s = split_max c (length s) s"

text \<open>\<^verbatim>\<open>a, b = s.split(c, 1)\<close> where \<open>c\<close> is known to occur in \<open>s\<close>.\<close>

definition split_first :: "char \<Rightarrow> string \<Rightarrow> string \<times> string" where
  "split_first c s = (takeWhile (\<lambda>x. x \<noteq> c) s, tl (dropWhile (\<lambda>x. x \<noteq> c) s))"

definition endswith :: "string \<Rightarrow> string \<Rightarrow> bool" where
  "endswith s suf = (length suf \<le> length s \<and> drop (length s - length suf) s = suf)"

definition join_with :: "string \<Rightarrow> string list \<Rightarrow> string" where
  "join_with sep xs = (case xs of [] \<Rightarrow> [] | y # ys \<Rightarrow> foldl (\<lambda>acc x. acc @ sep @ x) y ys)"

definition is_upper :: "char \<Rightarrow> bool" where
  "is_upper c = (65 \<le> (of_char c :: nat) \<and> (of_char c :: nat) \<le> 90)"

definition is_lower :: "char \<Rightarrow> bool" where
  "is_lower c = (97 \<le> (of_char c :: nat) \<and> (of_char c :: nat) \<le> 122)"

definition is_digit :: "char \<Rightarrow> bool" where
  "is_digit c = (48 \<le> (of_char c :: nat) \<and> (of_char c :: nat) \<le> 57)"

definition lower_char :: "char \<Rightarrow> char" where
  "lower_char c = (if is_upper c then char_of (of_char c + (32::nat)) else c)"

definition upper_char :: "char \<Rightarrow> char" where
  "upper_char c = (if is_lower c then char_of (of_char c - (32::nat)) else c)"

text \<open>\<^verbatim>\<open>s.lower()\<close> and \<^verbatim>\<open>s.upper()\<close> on ASCII strings.\<close>

definition lower :: "string \<Rightarrow> string" where
  "lower s = map lower_char s"

definition upper :: "string \<Rightarrow> string" where
  "upper s = map upper_char s"

text \<open>\<^verbatim>\<open>os.path.basename(p)\<close> (posixpath): the text after the last \<open>/\<close>.\<close>

definition os_path_basename :: "string \<Rightarrow> string" where
  "os_path_basename p = rev (takeWhile (\<lambda>x. x \<noteq> CHR ''/'') (rev p))"

text \<open>\<^verbatim>\<open>str(n)\<close> for a non-negative integer.\<close>

definition digit_char :: "nat \<Rightarrow> char" where
  "digit_char n = char_of (48 + n)"

fun str_nat_aux :: "nat \<Rightarrow> nat \<Rightarrow> string \<Rightarrow> string" where
  "str_nat_aux 0 n acc = acc"
| "str_nat_aux (Suc fuel) n acc =
     (if n < 10 then digit_char n # acc
      else str_nat_aux fuel (n div 10) (digit_char (n mod 10) # acc))"

definition str_nat :: "nat \<Rightarrow> string" where
  "str_nat n = str_nat_aux (Suc n) n []"

subsection \<open>\<^verbatim>\<open>urllib.parse\<close>\<close>

text \<open>
  \<^verbatim>\<open>urlparse\<close> and \<^verbatim>\<open>urlunparse\<close> of the Python 3.11 standard library, on ASCII strings.
  Two checks of \<^verbatim>\<open>urlsplit\<close> are outside this development and are parameters: whether
  the host between \<open>[\<close> and \<open>]\<close> is accepted (\<^verbatim>\<open>_check_bracketed_host\<close>) and whether a
  non-ASCII network location passes the NFKC check (\<^verbatim>\<open>_checknetloc\<close>).
\<close>

record pylib =
  bracketed_host_ok :: "string \<Rightarrow> bool"
  nfkc_netloc_ok :: "string \<Rightarrow> bool"

text \<open>The result of \<^verbatim>\<open>urlparse\<close>; \<open>upath\<close> is its attribute \<^verbatim>\<open>path\<close>.\<close>

record parse_result =
  scheme :: string
  netloc :: string
  upath :: string
  params :: string
  query :: string
  fragment :: string

definition scheme_chars :: string where
  "scheme_chars = ''abcdefghijklmnopqrstuvwxyzABCDEFGHIJKLMNOPQRSTUVWXYZ0123456789+-.''"

definition uses_params :: "string list" where
  "uses_params = ['''', ''ftp'', ''hdl'', ''prospero'', ''http'', ''imap'', ''https'', ''shttp'',
     ''rtsp'', ''rtsps'', ''rtspu'', ''sip'', ''sips'', ''mms'', ''sftp'', ''tel'']"

definition uses_netloc :: "string list" where
  "uses_netloc = ['''', ''ftp'', ''http'', ''gopher'', ''nntp'', ''telnet'', ''imap'', ''wais'',
     ''file'', ''mms'', ''https'', ''shttp'', ''snews'', ''prospero'', ''rtsp'', ''rtsps'',
     ''rtspu'', ''rsync'', ''svn'', ''svn+ssh'', ''sftp'', ''nfs'', ''git'', ''git+ssh'',
     ''ws'', ''wss'']"

definition is_ascii :: "string \<Rightarrow> bool" where
  "is_ascii s = list_all (\<lambda>c. (of_char c :: nat) < 128) s"

text \<open>\<^verbatim>\<open>_splitnetloc(url, 2)\<close>, for a \<open>url\<close> that starts with \<open>//\<close>.\<close>

definition splitnetloc :: "string \<Rightarrow> string \<times> string" where
  "splitnetloc u =
     (let r = drop 2 u;
          stop = (\<lambda>x. x \<noteq> CHR ''/'' \<and> x \<noteq> CHR ''?'' \<and> x \<noteq> CHR ''#'')
      in (takeWhile stop r, dropWhile stop r))"

definition urlsplit :: "pylib \<Rightarrow> string \<Rightarrow> py_error + parse_result" where
  "urlsplit L url0 =
     (let url1 = dropWhile (\<lambda>c. (of_char c :: nat) \<le> 32) url0;
          url2 = filter (\<lambda>c. (of_char c :: nat) \<notin> {9, 10, 13}) url1;
          pre = takeWhile (\<lambda>x. x \<noteq> CHR '':'') url2;
          has_scheme = (CHR '':'' \<in> set url2 \<and> pre \<noteq> []
                        \<and> (is_upper (hd url2) \<or> is_lower (hd url2))
                        \<and> list_all (\<lambda>c. c \<in> set scheme_chars) pre);
          sch = (if has_scheme then lower pre else []);
          url3 = (if has_scheme then drop (Suc (length pre)) url2 else url2);
          has_netloc = (take 2 url3 = ''//'');
          nl = (if has_netloc then fst (splitnetloc url3) else []);
          url4 = (if has_netloc then snd (splitnetloc url3) else url3)
      in if has_netloc \<and> ((CHR ''['' \<in> set nl \<and> CHR '']'' \<notin> set nl)
                          \<or> (CHR '']'' \<in> set nl \<and> CHR ''['' \<notin> set nl))
         then Inl (ValueError ''Invalid IPv6 URL'')
         else if has_netloc \<and> CHR ''['' \<in> set nl \<and> CHR '']'' \<in> set nl
                 \<and> \<not> bracketed_host_ok L
                       (takeWhile (\<lambda>x. x \<noteq> CHR '']'')
                          (tl (dropWhile (\<lambda>x. x \<noteq> CHR ''['') nl)))
         then Inl (ValueError ''Invalid bracketed host'')
         else
           let frag = (if CHR ''#'' \<in> set url4 then snd (split_first CHR ''#'' url4) else []);
               url5 = (if CHR ''#'' \<in> set url4 then fst (split_first CHR ''#'' url4) else url4);
               qry = (if CHR ''?'' \<in> set url5 then snd (split_first CHR ''?'' url5) else []);
               url6 = (if CHR ''?'' \<in> set url5 then fst (split_first CHR ''?'' url5) else url5)
           in if nl \<noteq> [] \<and> \<not> is_ascii nl \<and> \<not> nfkc_netloc_ok L nl
              then Inl (ValueError ''netloc contains invalid characters under NFKC normalization'')
              else Inr \<lparr>scheme = sch, netloc = nl, upath = url6, params = [],
                         query = qry, fragment = frag\<rparr>)"

text \<open>\<^verbatim>\<open>_splitparams(url)\<close>: the first \<open>;\<close> of the last path segment.\<close>

definition splitparams :: "string \<Rightarrow> string \<times> string" where
  "splitparams u =
     (let seg = os_path_basename u;
          dir = take (length u - length seg) u
      in if CHR ''/'' \<in> set u \<and> CHR '';'' \<notin> set seg then (u, [])
         else (dir @ takeWhile (\<lambda>x. x \<noteq> CHR '';'') seg,
               tl (dropWhile (\<lambda>x. x \<noteq> CHR '';'') seg)))"

definition urlparse :: "pylib \<Rightarrow> string \<Rightarrow> py_error + parse_result" where
  "urlparse L url0 =
     (case urlsplit L url0 of
        Inl e \<Rightarrow> Inl e
      | Inr r \<Rightarrow>
          if scheme r \<in> set uses_params \<and> CHR '';'' \<in> set (upath r)
          then Inr (r\<lparr>upath := fst (splitparams (upath r)),
                      params := snd (splitparams (upath r))\<rparr>)
          else Inr r)"

text \<open>
  \<^verbatim>\<open>urlunparse((scheme, netloc, url, params, query, None))\<close>: the fragment is always
  \<^verbatim>\<open>None\<close> at the one call site, so nothing follows the query.
\<close>

definition urlunparse_nofrag :: "string \<Rightarrow> string \<Rightarrow> string \<Rightarrow> string \<Rightarrow> string \<Rightarrow> string" where
  "urlunparse_nofrag sch nl u0 prm qry =
     (let u1 = (if prm \<noteq> [] then u0 @ '';'' @ prm else u0);
          u2 = (if nl \<noteq> [] \<or> (sch \<noteq> [] \<and> sch \<in> set uses_netloc) \<or> take 2 u1 = ''//''
                then ''//'' @ nl @ (if u1 \<noteq> [] \<and> take 1 u1 \<noteq> ''/'' then ''/'' @ u1 else u1)
                else u1);
          u3 = (if sch \<noteq> [] then sch @ '':'' @ u2 else u2)
      in if qry \<noteq> [] then u3 @ ''?'' @ qry else u3)"

subsection \<open>\<^verbatim>\<open>base64.b64decode\<close> and \<^verbatim>\<open>binascii.hexlify\<close>\<close>

type_synonym byte = "8 word"

text \<open>The value of a character in the standard base64 alphabet.\<close>

definition b64_value :: "char \<Rightarrow> nat option" where
  "b64_value c =
     (let n = (of_char c :: nat) in
      if is_upper c then Some (n - 65)
      else if is_lower c then Some (n - 97 + 26)
      else if is_digit c then Some (n - 48 + 52)
      else if c = CHR ''+'' then Some 62
      else if c = CHR ''/'' then Some 63
      else None)"

text \<open>
  \<^verbatim>\<open>binascii.a2b_base64\<close> in its default, non-strict mode: characters outside the
  alphabet are skipped, a pad that completes a quad ends the input, and input that ends
  inside a quad is an error. The arguments are the position in the quad, the bits left
  over from the previous character, the pads seen in a row and the bytes produced so far
  (in reverse).
\<close>

fun a2b_base64 :: "nat \<Rightarrow> nat \<Rightarrow> nat \<Rightarrow> byte list \<Rightarrow> string \<Rightarrow> py_error + byte list" where
  "a2b_base64 quad_pos leftchar pads out [] =
     (if quad_pos = 0 then Inr (rev out)
      else if quad_pos = 1
      then Inl (binascii_Error ''Invalid base64-encoded string: number of data characters cannot be 1 more than a multiple of 4'')
      else Inl (binascii_Error ''Incorrect padding''))"
| "a2b_base64 quad_pos leftchar pads out (c # cs) =
     (if c = CHR ''='' then
        (if 2 \<le> quad_pos \<and> 4 \<le> quad_pos + (pads + 1) then Inr (rev out)
         else a2b_base64 quad_pos leftchar (if 2 \<le> quad_pos then pads + 1 else pads) out cs)
      else case b64_value c of
        None \<Rightarrow> a2b_base64 quad_pos leftchar pads out cs
      | Some v \<Rightarrow>
          if quad_pos = 0 then a2b_base64 1 v 0 out cs
          else if quad_pos = 1
          then a2b_base64 2 (v mod 16) 0 (of_nat (leftchar * 4 + v div 16) # out) cs
          else if quad_pos = 2
          then a2b_base64 3 (v mod 4) 0 (of_nat (leftchar * 16 + v div 4) # out) cs
          else a2b_base64 0 0 0 (of_nat (leftchar * 64 + v) # out) cs)"

text \<open>
  \<^verbatim>\<open>b64decode(s)\<close> of a \<^verbatim>\<open>str\<close>: the string is encoded as ASCII first, which raises
  \<^verbatim>\<open>ValueError\<close> on any other character.
\<close>

definition b64decode :: "string \<Rightarrow> py_error + byte list" where
  "b64decode s =
     (if is_ascii s then a2b_base64 0 0 0 [] s
      else Inl (ValueError ''string argument should contain only ASCII characters''))"

definition hex_digit :: "nat \<Rightarrow> char" where
  "hex_digit n = (if n < 10 then char_of (48 + n) else char_of (87 + n))"

text \<open>\<^verbatim>\<open>hexlify(bs).decode("ascii")\<close>: two lowercase hexadecimal digits for each byte.\<close>

definition hexlify :: "byte list \<Rightarrow> string" where
  "hexlify bs = concat (map (\<lambda>b. [hex_digit (unat b div 16), hex_digit (unat b mod 16)]) bs)"

subsection \<open>The manifest and the registry\<close>

text \<open>
  An entry of the \<^verbatim>\<open>dependencies\<close> object of \<^verbatim>\<open>package-lock.json\<close>: each key the
  program reads is optional.
\<close>

datatype node = Node
  (bundled: "bool option")
  (resolved: "string option")
  (integrity: "string option")
  (from': "string option")
  (dependencies: "(string \<times> node) list option")

text \<open>
  A value of \<^verbatim>\<open>MODULE_MAP\<close>: a dictionary that always has \<^verbatim>\<open>url\<close>, has \<^verbatim>\<open>algo\<close> and
  \<^verbatim>\<open>chksum\<close> when it comes from a \<^verbatim>\<open>resolved\<close> entry, and \<^verbatim>\<open>scm\<close>, \<^verbatim>\<open>branch\<close> and
  \<^verbatim>\<open>basename\<close> when it comes from a git entry. Its \<^verbatim>\<open>path\<close> set is created by
  \<^verbatim>\<open>setdefault\<close> in the statement that follows the creation of the dictionary, so a
  dictionary is created here with the empty set.
\<close>

record artifact =
  url :: string
  algo :: "string option"
  chksum :: "string option"
  scm :: "string option"
  branch :: "string option"
  basename :: "string option"
  path :: "string set"

record state =
  MODULE_MAP :: "(string \<times> artifact) list"
  log :: "log_record list"

definition initial :: state where
  "initial = \<lparr>MODULE_MAP = [], log = []\<rparr>"

definition logging :: "level \<Rightarrow> string \<Rightarrow> string list \<Rightarrow> state \<Rightarrow> state" where
  "logging lv fmt args st = st\<lparr>log := log st @ [(lv, fmt, args)]\<rparr>"

text \<open>\<^verbatim>\<open>MODULE_MAP[fn].setdefault("path", set()).add(p)\<close>, for a key that is present.\<close>

definition add_path :: "string \<Rightarrow> string \<Rightarrow> state \<Rightarrow> state" where
  "add_path fn p st =
     st\<lparr>MODULE_MAP := AList.map_entry fn (\<lambda>a. a\<lparr>path := insert p (path a)\<rparr>) (MODULE_MAP st)\<rparr>"

text \<open>\<^verbatim>\<open>sorted(deps)\<close>: the keys of a dictionary in ascending order.\<close>

definition sorted_keys :: "(string \<times> 'a) list \<Rightarrow> string list" where
  "sorted_keys deps = sort (remdups (map fst deps))"

text \<open>The two \<^verbatim>\<open>"/".join\<close> of the loop: the path of a module below the directory \<open>d\<close>.\<close>

definition module_path :: "string \<Rightarrow> string \<Rightarrow> string" where
  "module_path d module =
     (let p = join_with ''/'' [''node_modules'', module]
      in if d \<noteq> [] then join_with ''/'' [d, p] else p)"

subsection \<open>\<^verbatim>\<open>collect_deps_recursive\<close>\<close>

text \<open>
  The git branch of the loop body (lines 51 to 77), for an entry without \<^verbatim>\<open>resolved\<close>
  whose \<^verbatim>\<open>from\<close> is \<open>f\<close>. The assignment to \<^verbatim>\<open>MODULE_MAP[fn]\<close> stores a new
  dictionary, whatever was there.
\<close>

definition register_from :: "pylib \<Rightarrow> string \<Rightarrow> string \<Rightarrow> string \<Rightarrow> state \<Rightarrow> (py_error \<times> state) + state" where
  "register_from L p module f st =
     (case urlparse L f of
        Inl e \<Rightarrow> Inl (e, st)
      | Inr pr \<Rightarrow>
          if scheme pr \<in> {''git+http'', ''git+https''} then
            (case split_all CHR ''+'' (scheme pr) of
               [_, scheme'] \<Rightarrow>
                 let branch' = (if fragment pr \<noteq> [] then fragment pr else ''master'');
                     b0 = os_path_basename (upath pr);
                     b = (if endswith b0 ''.git'' then take (length b0 - 4) b0 else b0);
                     fn = b @ ''-'' @ branch' @ ''.tgz'';
                     st1 = st\<lparr>MODULE_MAP := AList.update fn
                             \<lparr>url = urlunparse_nofrag scheme' (netloc pr) (upath pr) (params pr) (query pr),
                              algo = None, chksum = None, scm = Some ''git'',
                              branch = Some branch', basename = Some b, path = {}\<rparr>
                             (MODULE_MAP st)\<rparr>
                 in Inr (add_path fn p st1)
             | _ \<Rightarrow> Inl (ValueError ''not enough values to unpack'', st))
          else Inr (logging WARNING ''entry %s is from unsupported location %s'' [module, f] st))"

text \<open>
  Lines 83 and 84: the two parts of \<^verbatim>\<open>integrity.split("-", 2)\<close>, which are unpacked
  into two names, and the hexadecimal form of the decoded second part.
\<close>

definition parse_integrity :: "string \<Rightarrow> py_error + (string \<times> string)" where
  "parse_integrity integ =
     (case split_max CHR ''-'' (Suc (Suc 0)) integ of
        [algo', b64] \<Rightarrow>
          (case b64decode b64 of
             Inl e \<Rightarrow> Inl e
           | Inr bs \<Rightarrow> Inr (algo', hexlify bs))
      | [_] \<Rightarrow> Inl (ValueError ''not enough values to unpack (expected 2, got 1)'')
      | _ \<Rightarrow> Inl (ValueError ''too many values to unpack (expected 2)''))"

text \<open>Lines 85 to 90: the file name of a \<^verbatim>\<open>resolved\<close> entry.\<close>

definition resolved_filename :: "string \<Rightarrow> string \<Rightarrow> string" where
  "resolved_filename module u =
     (let fn = os_path_basename u
      in if CHR ''/'' \<in> set module then hd (split_all CHR ''/'' module) @ ''-'' @ fn else fn)"

text \<open>
  The \<^verbatim>\<open>resolved\<close> branch of the loop body (lines 82 to 110). When the file name is
  already a key, the comparison and the arguments of \<^verbatim>\<open>logging.error\<close> read
  \<^verbatim>\<open>algo\<close> and \<^verbatim>\<open>chksum\<close> of the stored dictionary: on every path the first of the
  two that is missing raises \<^verbatim>\<open>KeyError\<close>.
\<close>

definition register_resolved :: "string \<Rightarrow> string \<Rightarrow> node \<Rightarrow> string \<Rightarrow> state \<Rightarrow> (py_error \<times> state) + state" where
  "register_resolved p module entry u st =
     (case integrity entry of
        None \<Rightarrow> Inl (KeyError ''integrity'', st)
      | Some integ \<Rightarrow>
         (case parse_integrity integ of
            Inl e \<Rightarrow> Inl (e, st)
          | Inr (algo', chksum') \<Rightarrow>
              let fn = resolved_filename module u
              in (case map_of (MODULE_MAP st) fn of
                    Some old \<Rightarrow>
                      (case algo old of
                         None \<Rightarrow> Inl (KeyError ''algo'', st)
                       | Some oalgo \<Rightarrow>
                          (case chksum old of
                             None \<Rightarrow> Inl (KeyError ''chksum'', st)
                           | Some ochksum \<Rightarrow>
                               if url old \<noteq> u \<or> oalgo \<noteq> algo' \<or> ochksum \<noteq> chksum'
                               then Inr (add_path fn p
                                      (logging ERROR ''%s: mismatch %s <> %s, %s:%s <> %s:%s''
                                         [module, url old, u, oalgo, ochksum, algo', chksum'] st))
                               else Inr (add_path fn p st)))
                  | None \<Rightarrow>
                      Inr (add_path fn p
                        (st\<lparr>MODULE_MAP := AList.update fn
                             \<lparr>url = u, algo = Some algo', chksum = Some chksum', scm = None,
                              branch = None, basename = None, path = {}\<rparr>
                             (MODULE_MAP st)\<rparr>)))))"

text \<open>Lines 49 to 110: the classification of an entry that is not bundled.\<close>

definition register_entry :: "pylib \<Rightarrow> string \<Rightarrow> string \<Rightarrow> node \<Rightarrow> state \<Rightarrow> (py_error \<times> state) + state" where
  "register_entry L p module entry st =
     (case resolved entry of
        None \<Rightarrow>
          (case from' entry of
             Some f \<Rightarrow> register_from L p module f st
           | None \<Rightarrow> Inr (logging WARNING ''entry %s has no download'' [module] st))
      | Some u \<Rightarrow> register_resolved p module entry u st)"

text \<open>
  The loop of \<^verbatim>\<open>collect_deps_recursive(d, deps)\<close> over the modules that remain to be
  visited. A bundled entry is skipped by \<^verbatim>\<open>continue\<close>; every other entry is
  classified and then, when it has \<^verbatim>\<open>dependencies\<close>, the function calls itself below
  the path of the entry. An exception ends the loop.
\<close>

function collect_deps_loop ::
  "pylib \<Rightarrow> string \<Rightarrow> (string \<times> node) list \<Rightarrow> string list \<Rightarrow> state \<Rightarrow> (py_error \<times> state) + state"
where
  "collect_deps_loop L d deps [] st = Inr st"
| "collect_deps_loop L d deps (module # rest) st =
     (case map_of deps module of
        None \<Rightarrow> Inl (KeyError module, st)
      | Some entry \<Rightarrow>
          if bundled entry = Some True then collect_deps_loop L d deps rest st
          else
            (case register_entry L (module_path d module) module entry st of
               Inl e \<Rightarrow> Inl e
             | Inr st1 \<Rightarrow>
                (case dependencies entry of
                   None \<Rightarrow> collect_deps_loop L d deps rest st1
                 | Some ds \<Rightarrow>
                    (case collect_deps_loop L (module_path d module) ds (sorted_keys ds) st1 of
                       Inl e \<Rightarrow> Inl e
                     | Inr st2 \<Rightarrow> collect_deps_loop L d deps rest st2))))"
  by pat_completeness auto
termination
proof -
  have less: "size_list (size_prod (\<lambda>_. 0) size) ds < size_list (size_prod (\<lambda>_. 0) size) deps"
    if "map_of deps module = Some entry" and "dependencies entry = Some ds"
    for deps :: "(string \<times> node) list" and module entry ds
    using that
  proof (induction deps)
    case Nil
    then show ?case by simp
  next
    case (Cons kv deps)
    obtain k v where kv: "kv = (k, v)" by (cases kv)
    show ?case
    proof (cases "k = module")
      case True
      with Cons.prems kv have "v = entry" by simp
      with Cons.prems(2) kv show ?thesis by (cases entry) simp
    next
      case False
      with Cons kv show ?thesis by simp
    qed
  qed
  show ?thesis
    by (relation "(\<lambda>(L, d, deps, ks, st). size_list (size_prod (\<lambda>_. 0) size) deps) <*mlex*>
                  measure (\<lambda>(L, d, deps, ks, st). length ks)")
       (auto simp: wf_mlex mlex_less mlex_leq less)
qed

definition collect_deps_recursive ::
  "pylib \<Rightarrow> string \<Rightarrow> (string \<times> node) list \<Rightarrow> state \<Rightarrow> (py_error \<times> state) + state" where
  "collect_deps_recursive L d deps st = collect_deps_loop L d deps (sorted_keys deps) st"

subsection \<open>\<^verbatim>\<open>main\<close>: the writers\<close>

text \<open>
  The command line: \<^verbatim>\<open>if args.output:\<close> is true for a string that is present and not
  empty.
\<close>

record args =
  input :: string
  output' :: "string option"
  checksums :: "string option"
  locations :: "string option"
  download :: bool
  download_skip_existing :: bool

definition truthy :: "string option \<Rightarrow> bool" where
  "truthy a = (case a of None \<Rightarrow> False | Some s \<Rightarrow> s \<noteq> [])"

text \<open>
  The globals together with the files of the working directory (name and content) and
  its directories. Opening an output file for writing is taken to succeed; what was
  written before an exception stays in the file, which \<^verbatim>\<open>with\<close> closes.
\<close>

record world =
  globals :: state
  files :: "(string \<times> string) list"
  dirs :: "string list"

text \<open>Lines 127 to 130: one \<^verbatim>\<open>Source<i>\<close> line for each file name, from \<open>i\<close> on.\<close>

fun write_output :: "(string \<times> artifact) list \<Rightarrow> nat \<Rightarrow> string list \<Rightarrow> string \<Rightarrow> (py_error \<times> string) + string" where
  "write_output m i [] fh = Inr fh"
| "write_output m i (fn # fns) fh =
     (case map_of m fn of
        None \<Rightarrow> Inl (KeyError fn, fh)
      | Some a \<Rightarrow>
          write_output m (i + 1) fns
            (fh @ ''Source'' @ str_nat i @ '':     '' @ url a @ ''#/'' @ fn @ [CHR 0x0A]))"

text \<open>
  Lines 134 to 139: one line for each file name. The arguments of \<^verbatim>\<open>format\<close> read the
  keys \<^verbatim>\<open>algo\<close> and \<^verbatim>\<open>chksum\<close> of the dictionary, in this order.
\<close>

fun write_checksums :: "(string \<times> artifact) list \<Rightarrow> string list \<Rightarrow> string \<Rightarrow> (py_error \<times> string) + string" where
  "write_checksums m [] fh = Inr fh"
| "write_checksums m (fn # fns) fh =
     (case map_of m fn of
        None \<Rightarrow> Inl (KeyError fn, fh)
      | Some a \<Rightarrow>
         (case algo a of
            None \<Rightarrow> Inl (KeyError ''algo'', fh)
          | Some al \<Rightarrow>
             (case chksum a of
                None \<Rightarrow> Inl (KeyError ''chksum'', fh)
              | Some ck \<Rightarrow>
                  write_checksums m fns
                    (fh @ upper al @ '' ('' @ fn @ '') = '' @ ck @ [CHR 0x0A]))))"

text \<open>Lines 143 and 144: the file name and its paths, sorted.\<close>

fun write_locations :: "(string \<times> artifact) list \<Rightarrow> string list \<Rightarrow> string \<Rightarrow> (py_error \<times> string) + string" where
  "write_locations m [] fh = Inr fh"
| "write_locations m (fn # fns) fh =
     (case map_of m fn of
        None \<Rightarrow> Inl (KeyError fn, fh)
      | Some a \<Rightarrow>
          write_locations m fns
            (fh @ fn @ '' '' @ join_with '' '' (sorted_list_of_set (path a)) @ [CHR 0x0A]))"

text \<open>
  \<^verbatim>\<open>with open(name, "w") as fh:\<close> around a writer: the file holds what the writer
  wrote, also when it raised.
\<close>

definition with_open_w :: "string \<Rightarrow> ((py_error \<times> string) + string) \<Rightarrow> world \<Rightarrow> (py_error \<times> world) + world" where
  "with_open_w name r w =
     (case r of
        Inl (e, fh) \<Rightarrow> Inl (e, w\<lparr>files := AList.update name fh (files w)\<rparr>)
      | Inr fh \<Rightarrow> Inr (w\<lparr>files := AList.update name fh (files w)\<rparr>))"

subsection \<open>\<^verbatim>\<open>main\<close>: the downloader\<close>

text \<open>
  What the program asks of its environment. \<open>read_manifest\<close> is \<^verbatim>\<open>open\<close> and
  \<^verbatim>\<open>json.load\<close> of the input: an exception, or the \<^verbatim>\<open>dependencies\<close> of the object
  when it has the key. \<open>run_git\<close> is the return code of \<^verbatim>\<open>subprocess.run\<close> for a
  command and a working directory; a clone that returns 0 is taken to create its
  directory and an archive that returns 0 to write \<open>archive_data\<close> to its file.
  \<open>request_error\<close> is the exception of \<^verbatim>\<open>Request(url)\<close>, if it raises for the URL.
  \<open>urlopen\<close> takes the URL and the \<^verbatim>\<open>If-Modified-Since\<close> header: it raises, or gives a
  response whose \<^verbatim>\<open>read\<close> raises or gives the data. \<open>hashlib_new\<close> gives the
  \<^verbatim>\<open>hexdigest\<close> of an algorithm, or nothing for a name \<^verbatim>\<open>hashlib\<close> does not know.
  \<open>write_new\<close> says how writing the data to a new file ends.
\<close>

datatype write_outcome = Written | OpenFailed string | WriteFailed string string

record env =
  lib :: pylib
  read_manifest :: "string \<Rightarrow> py_error + (string \<times> node) list option"
  run_git :: "string list \<Rightarrow> string option \<Rightarrow> nat"
  archive_data :: "string \<Rightarrow> string \<Rightarrow> string"
  mtime_stamp :: "string \<Rightarrow> string"
  request_error :: "string \<Rightarrow> py_error option"
  urlopen :: "string \<Rightarrow> string option \<Rightarrow> py_error + (py_error + string)"
  hashlib_new :: "string \<Rightarrow> (string \<Rightarrow> string) option"
  write_new :: "string \<Rightarrow> string \<Rightarrow> write_outcome"

definition os_path_exists :: "world \<Rightarrow> string \<Rightarrow> bool" where
  "os_path_exists w p = (p \<in> fst ` set (files w) \<or> p \<in> set (dirs w))"

definition wlog :: "level \<Rightarrow> string \<Rightarrow> string list \<Rightarrow> world \<Rightarrow> world" where
  "wlog lv fmt as w = w\<lparr>globals := logging lv fmt as (globals w)\<rparr>"

definition str_error :: "py_error \<Rightarrow> string" where
  "str_error e =
     (case e of
        KeyError s \<Rightarrow> s | ValueError s \<Rightarrow> s | binascii_Error s \<Rightarrow> s
      | HTTPError n \<Rightarrow> ''HTTP Error '' @ str_nat n | URLError s \<Rightarrow> s | OSError s \<Rightarrow> s
      | FileNotFoundError s \<Rightarrow> s)"

text \<open>
  \<^verbatim>\<open>os.rename(fn + ".new", fn)\<close>: raises when the source does not exist, replaces the
  destination otherwise.
\<close>

definition os_rename :: "string \<Rightarrow> string \<Rightarrow> world \<Rightarrow> (py_error \<times> world) + world" where
  "os_rename src dst w =
     (case map_of (files w) src of
        None \<Rightarrow> Inl (FileNotFoundError src, w)
      | Some data \<Rightarrow> Inr (w\<lparr>files := AList.update dst data (AList.delete src (files w))\<rparr>))"

text \<open>
  Lines 206 to 212: the data is written to \<^verbatim>\<open>fn + ".new"\<close>; an \<^verbatim>\<open>OSError\<close> is logged;
  the \<^verbatim>\<open>finally\<close> clause renames the new file in every case.
\<close>

definition store_file :: "env \<Rightarrow> string \<Rightarrow> string \<Rightarrow> world \<Rightarrow> (py_error \<times> world) + world" where
  "store_file E fn data w =
     (let new = fn @ ''.new'';
          w1 = (case write_new E new data of
                  Written \<Rightarrow> w\<lparr>files := AList.update new data (files w)\<rparr>
                | OpenFailed msg \<Rightarrow> wlog ERROR ''%s'' [msg] w
                | WriteFailed msg part \<Rightarrow>
                    wlog ERROR ''%s'' [msg] (w\<lparr>files := AList.update new part (files w)\<rparr>))
      in os_rename new fn w1)"

text \<open>Lines 178 to 214: the download of a file that is not kept under git.\<close>

definition fetch_file :: "env \<Rightarrow> args \<Rightarrow> string \<Rightarrow> artifact \<Rightarrow> world \<Rightarrow> (py_error \<times> world) + world" where
  "fetch_file E ar fn a w =
     (case request_error E (url a) of
        Some e \<Rightarrow> Inl (e, w)
      | None \<Rightarrow>
         if os_path_exists w fn \<and> download_skip_existing ar
         then Inr (wlog INFO ''skipping download of existing %s'' [fn] w)
         else
           let hdr = (if os_path_exists w fn then Some (mtime_stamp E fn) else None);
               w1 = (if os_path_exists w fn
                     then wlog DEBUG ''adding If-Modified-Since %s: %s'' [fn, mtime_stamp E fn] w
                     else w);
               w2 = wlog INFO ''fetching %s as %s'' [url a, fn] w1
           in (case algo a of
                 None \<Rightarrow> Inl (KeyError ''algo'', w2)
               | Some al \<Rightarrow>
                  (case chksum a of
                     None \<Rightarrow> Inl (KeyError ''chksum'', w2)
                   | Some ck \<Rightarrow>
                      (case hashlib_new E al of
                         None \<Rightarrow> Inl (ValueError (''unsupported hash type '' @ al), w2)
                       | Some hexdigest \<Rightarrow>
                          (case urlopen E (url a) hdr of
                             Inl e \<Rightarrow> Inl (e, w2)
                           | Inr response \<Rightarrow>
                              (case response of
                                 Inl (HTTPError n) \<Rightarrow>
                                   Inr (wlog ERROR ''%s'' [str_error (HTTPError n)] w2)
                               | Inl e \<Rightarrow> Inl (e, w2)
                               | Inr data \<Rightarrow>
                                   if hexdigest data \<noteq> ck
                                   then Inr (wlog ERROR ''checksum failure for %s %s %s %s''
                                               [fn, al, ''<built-in method hexdigest>'', ck] w2)
                                   else store_file E fn data w2))))))"

text \<open>Lines 150 to 176: the clone, or its update, and the archive of the branch.\<close>

definition fetch_git :: "env \<Rightarrow> string \<Rightarrow> artifact \<Rightarrow> world \<Rightarrow> (py_error \<times> world) + world" where
  "fetch_git E fn a w =
     (case basename a of
        None \<Rightarrow> Inl (KeyError ''basename'', w)
      | Some d \<Rightarrow>
          let cloned = (if os_path_exists w d
                        then run_git E [''git'', ''remote'', ''update''] (Some d)
                        else run_git E [''git'', ''clone'', ''--bare'', url a, d] None);
              w1 = (if os_path_exists w d then w else w\<lparr>dirs := d # dirs w\<rparr>)
          in if cloned \<noteq> 0 then Inr (wlog ERROR ''failed to clone %s'' [url a] w)
             else
               (case branch a of
                  None \<Rightarrow> Inl (KeyError ''branch'', w1)
                | Some br \<Rightarrow>
                    if run_git E [''git'', ''archive'', ''--format=tar.gz'', ''-o'', ''../'' @ fn,
                                  ''--prefix'', ''package/'', br] (Some d) \<noteq> 0
                    then Inr (wlog ERROR ''failed to create tar %s'' [url a] w1)
                    else Inr (w1\<lparr>files := AList.update fn (archive_data E d br) (files w1)\<rparr>)))"

text \<open>Lines 147 to 214: the loop of the downloader over the sorted file names.\<close>

fun download_loop :: "env \<Rightarrow> args \<Rightarrow> string list \<Rightarrow> world \<Rightarrow> (py_error \<times> world) + world" where
  "download_loop E ar [] w = Inr w"
| "download_loop E ar (fn # fns) w =
     (case map_of (MODULE_MAP (globals w)) fn of
        None \<Rightarrow> Inl (KeyError fn, w)
      | Some a \<Rightarrow>
         (case (if scm a \<noteq> None then fetch_git E fn a w else fetch_file E ar fn a w) of
            Inl e \<Rightarrow> Inl e
          | Inr w1 \<Rightarrow> download_loop E ar fns w1))"

subsection \<open>\<^verbatim>\<open>main\<close>\<close>

definition resolve :: "env \<Rightarrow> (string \<times> node) list option \<Rightarrow> world \<Rightarrow> (py_error \<times> world) + world" where
  "resolve E js w =
     (case js of
        None \<Rightarrow> Inr w
      | Some deps \<Rightarrow>
         (case collect_deps_recursive (lib E) [] deps (globals w) of
            Inl (e, st) \<Rightarrow> Inl (e, w\<lparr>globals := st\<rparr>)
          | Inr st \<Rightarrow> Inr (w\<lparr>globals := st\<rparr>)))"

definition filenames :: "world \<Rightarrow> string list" where
  "filenames w = sorted_keys (MODULE_MAP (globals w))"

definition step_output :: "args \<Rightarrow> world \<Rightarrow> (py_error \<times> world) + world" where
  "step_output ar w =
     (if truthy (output' ar)
      then with_open_w (the (output' ar))
             (write_output (MODULE_MAP (globals w)) 100 (filenames w) []) w
      else Inr w)"

definition step_checksums :: "args \<Rightarrow> world \<Rightarrow> (py_error \<times> world) + world" where
  "step_checksums ar w =
     (if truthy (checksums ar)
      then with_open_w (the (checksums ar))
             (write_checksums (MODULE_MAP (globals w)) (filenames w) []) w
      else Inr w)"

definition step_locations :: "args \<Rightarrow> world \<Rightarrow> (py_error \<times> world) + world" where
  "step_locations ar w =
     (if truthy (locations ar)
      then with_open_w (the (locations ar))
             (write_locations (MODULE_MAP (globals w)) (filenames w) []) w
      else Inr w)"

definition step_download :: "env \<Rightarrow> args \<Rightarrow> world \<Rightarrow> (py_error \<times> world) + world" where
  "step_download E ar w = (if download ar then download_loop E ar (filenames w) w else Inr w)"

text \<open>The statements of \<^verbatim>\<open>main\<close> in sequence: the first exception ends the program.\<close>

definition and_then ::
  "((py_error \<times> world) + world) \<Rightarrow> (world \<Rightarrow> (py_error \<times> world) + world) \<Rightarrow> (py_error \<times> world) + world" where
  "and_then r f = (case r of Inl e \<Rightarrow> Inl e | Inr w \<Rightarrow> f w)"

definition main :: "env \<Rightarrow> args \<Rightarrow> world \<Rightarrow> (py_error \<times> world) + world" where
  "main E ar w0 =
     (let w = wlog INFO ''main'' [] w0
      in case read_manifest E (input ar) of
           Inl e \<Rightarrow> Inl (e, w)
         | Inr js \<Rightarrow>
             and_then (and_then (and_then (and_then (resolve E js w)
               (step_output ar)) (step_checksums ar)) (step_locations ar)) (step_download E ar))"

subsection \<open>Environments for concrete runs\<close>

text \<open>
  A library that accepts every bracketed host and every network location; no run below
  has a URL that asks it.
\<close>

definition lib0 :: pylib where
  "lib0 = \<lparr>bracketed_host_ok = (\<lambda>_. True), nfkc_netloc_ok = (\<lambda>_. True)\<rparr>"

text \<open>
  Networks and disks for the runs: no network; a network where the first tarball is not
  found and every other URL gives \<open>data\<close>; a network where every URL gives \<open>data\<close>; a
  disk that takes every file; a disk on which a write stops after \<open>da\<close>.
\<close>

definition offline :: "string \<Rightarrow> string option \<Rightarrow> py_error + (py_error + string)" where
  "offline u hdr = Inl (URLError ''offline'')"

definition net_404 :: "string \<Rightarrow> string option \<Rightarrow> py_error + (py_error + string)" where
  "net_404 u hdr =
     (if u = ''https://registry.example.org/a/-/a-1.0.tgz'' then Inl (HTTPError 404)
      else Inr (Inr ''data''))"

definition net_data :: "string \<Rightarrow> string option \<Rightarrow> py_error + (py_error + string)" where
  "net_data u hdr = Inr (Inr ''data'')"

definition disk_ok :: "string \<Rightarrow> string \<Rightarrow> write_outcome" where
  "disk_ok name data = Written"

definition disk_full :: "string \<Rightarrow> string \<Rightarrow> write_outcome" where
  "disk_full name data = WriteFailed ''No space left on device'' ''da''"

text \<open>
  An environment whose input file gives \<open>js\<close>, with the network \<open>net\<close> and the disk
  \<open>disk\<close>: git succeeds, every URL makes a request, and every hash algorithm is known
  and gives the digest \<open>deadbeef\<close>.
\<close>

definition env_with ::
  "(py_error + (string \<times> node) list option) \<Rightarrow> (string \<Rightarrow> string option \<Rightarrow> py_error + (py_error + string))
     \<Rightarrow> (string \<Rightarrow> string \<Rightarrow> write_outcome) \<Rightarrow> env" where
  "env_with js net disk =
     \<lparr>lib = lib0, read_manifest = (\<lambda>_. js), run_git = (\<lambda>_ _. 0),
      archive_data = (\<lambda>_ _. ''tar''), mtime_stamp = (\<lambda>_. ''Thu, 01 Jan 1970 00:00:00 GMT''),
      request_error = (\<lambda>_. None), urlopen = net,
      hashlib_new = (\<lambda>_. Some (\<lambda>_. ''deadbeef'')), write_new = disk\<rparr>"

definition no_args :: args where
  "no_args = \<lparr>input = ''package-lock.json'', output' = None, checksums = None,
              locations = None, download = False, download_skip_existing = False\<rparr>"

definition empty_world :: world where
  "empty_world = \<lparr>globals = initial, files = [], dirs = []\<rparr>"

text \<open>Two modules that come from the same git repository, and a module of the registry.\<close>

definition git_node :: node where
  "git_node = Node None None None (Some ''git+https://example.com/org/repo.git'') None"

definition tarball_node :: node where
  "tarball_node =
     Node None (Some ''https://registry.example.org/a/-/a-1.0.tgz'') (Some ''sha1-3q2+7w=='') None None"

definition tarball_b :: node where
  "tarball_b =
     Node None (Some ''https://registry.example.org/b/-/b-1.0.tgz'') (Some ''sha1-3q2+7w=='') None None"

text \<open>
  A second entry for the file name \<open>a-1.0.tgz\<close>, from another URL and with another
  checksum, and the artifact that \<open>tarball_node\<close> leaves in the registry.
\<close>

definition conflicting_node :: node where
  "conflicting_node =
     Node None (Some ''https://mirror.example.org/a-1.0.tgz'') (Some ''sha1-AAAA'') None None"


subsection \<open>Base64 digests\<close>

text \<open>
  The standard base64 encoding of a byte string (RFC 4648, with padding): the form of the
  digest in an \<^verbatim>\<open>integrity\<close> string \<^verbatim>\<open><algorithm>-<base64 digest>\<close>. It is not part
  of the program; the claims about \<^verbatim>\<open>integrity\<close> are stated with it.
\<close>

definition b64_char :: "nat \<Rightarrow> char" where
  "b64_char v =
     (if v < 26 then char_of (65 + v)
      else if v < 52 then char_of (97 + (v - 26))
      else if v < 62 then char_of (48 + (v - 52))
      else if v = 62 then CHR ''+'' else CHR ''/'')"

fun b64encode :: "byte list \<Rightarrow> string" where
  "b64encode [] = []"
| "b64encode [a] =
     [b64_char (unat a div 4), b64_char (unat a mod 4 * 16), CHR ''='', CHR ''='']"
| "b64encode [a, b] =
     [b64_char (unat a div 4), b64_char (unat a mod 4 * 16 + unat b div 16),
      b64_char (unat b mod 16 * 4), CHR ''='']"
| "b64encode (a # b # c # bs) =
     [b64_char (unat a div 4), b64_char (unat a mod 4 * 16 + unat b div 16),
      b64_char (unat b mod 16 * 4 + unat c div 64), b64_char (unat c mod 64)] @ b64encode bs"

text \<open>The characters of \<^verbatim>\<open>hexlify\<close>: digits and the letters \<open>a\<close> to \<open>f\<close>.\<close>

definition is_lower_hex :: "char \<Rightarrow> bool" where
  "is_lower_hex c = (is_digit c \<or> (97 \<le> (of_char c :: nat) \<and> (of_char c :: nat) \<le> 102))"

text \<open>
  The prefix that line 90 puts before the file name: the text of the module name before
  its first \<open>/\<close> and a hyphen, or nothing for a name without \<open>/\<close>.
\<close>

definition scope_prefix :: "string \<Rightarrow> string" where
  "scope_prefix module =
     (if CHR ''/'' \<in> set module then takeWhile (\<lambda>x. x \<noteq> CHR ''/'') module @ ''-'' else [])"

text \<open>The items of a dictionary that line 47 does not skip.\<close>

definition not_bundled :: "string \<times> node \<Rightarrow> bool" where
  "not_bundled kv = (bundled (snd kv) \<noteq> Some True)"

text \<open>An entry without source that has a dependency.\<close>

definition holder_node :: node where
  "holder_node = Node None None None None (Some [(''x'', tarball_node)])"

text \<open>A bundled entry with a source of its own and a dependency.\<close>

definition bundled_node :: node where
  "bundled_node =
     Node (Some True) (Some ''https://registry.example.org/z/-/z-1.0.tgz'') (Some ''sha1-3q2+7w=='')
       None (Some [(''b'', tarball_b)])"


subsection \<open>One manifest, written in any order\<close>

text \<open>
  Two association lists are the same JSON object when their keys are distinct and the
  same and each key has the same entry in both; two entries are the same when they agree
  on every key the program reads and their \<^verbatim>\<open>dependencies\<close> are the same object.
\<close>

inductive same_node :: "node \<Rightarrow> node \<Rightarrow> bool"
  and same_dict :: "(string \<times> node) list \<Rightarrow> (string \<times> node) list \<Rightarrow> bool"
where
  leaf: "same_node (Node b r i f None) (Node b r i f None)"
| inner: "same_dict ds ds' \<Longrightarrow> same_node (Node b r i f (Some ds)) (Node b r i f (Some ds'))"
| dict: "distinct (map fst ds) \<Longrightarrow> distinct (map fst ds') \<Longrightarrow> fst ` set ds = fst ` set ds' \<Longrightarrow>
         (\<forall>k e e'. map_of ds k = Some e \<and> map_of ds' k = Some e' \<longrightarrow> same_node e e') \<Longrightarrow>
         same_dict ds ds'"

text \<open>A manifest with a nested dictionary, written in two orders.\<close>

definition nested_xy :: "(string \<times> node) list" where
  "nested_xy =
     [(''m'', Node None None None None (Some [(''x'', tarball_node), (''y'', git_node)])),
      (''n'', tarball_b)]"

definition nested_yx :: "(string \<times> node) list" where
  "nested_yx =
     [(''n'', tarball_b),
      (''m'', Node None None None None (Some [(''y'', git_node), (''x'', tarball_node)]))]"

subsection \<open>The entries of a walk\<close>

text \<open>
  The entries that \<^verbatim>\<open>collect_deps_recursive(d, deps)\<close> classifies, in the order of the
  walk, each with its path and its module name: the loop without the registry. It is not
  part of the program; the claims about two entries of one manifest are stated with it.
\<close>

function visit_loop ::
  "string \<Rightarrow> (string \<times> node) list \<Rightarrow> string list \<Rightarrow> (string \<times> string \<times> node) list"
where
  "visit_loop d deps [] = []"
| "visit_loop d deps (module # rest) =
     (case map_of deps module of
        None \<Rightarrow> []
      | Some entry \<Rightarrow>
          if bundled entry = Some True then visit_loop d deps rest
          else
            (module_path d module, module, entry) #
            (case dependencies entry of
               None \<Rightarrow> []
             | Some ds \<Rightarrow> visit_loop (module_path d module) ds (sorted_keys ds))
            @ visit_loop d deps rest)"
  by pat_completeness auto
termination
proof -
  have less: "size_list (size_prod (\<lambda>_. 0) size) ds < size_list (size_prod (\<lambda>_. 0) size) deps"
    if "map_of deps module = Some entry" and "dependencies entry = Some ds"
    for deps :: "(string \<times> node) list" and module entry ds
    using that
  proof (induction deps)
    case Nil
    then show ?case by simp
  next
    case (Cons kv deps)
    obtain k v where kv: "kv = (k, v)" by (cases kv)
    show ?case
    proof (cases "k = module")
      case True
      with Cons.prems kv have "v = entry" by simp
      with Cons.prems(2) kv show ?thesis by (cases entry) simp
    next
      case False
      with Cons kv show ?thesis by simp
    qed
  qed
  show ?thesis
    by (relation "(\<lambda>(d, deps, ks). size_list (size_prod (\<lambda>_. 0) size) deps) <*mlex*>
                  measure (\<lambda>(d, deps, ks). length ks)")
       (auto simp: wf_mlex mlex_less mlex_leq less)
qed

definition visited :: "string \<Rightarrow> (string \<times> node) list \<Rightarrow> (string \<times> string \<times> node) list" where
  "visited d deps = visit_loop d deps (sorted_keys deps)"

text \<open>The classification of a list of entries in sequence: the first exception ends it.\<close>

fun register_all ::
  "pylib \<Rightarrow> (string \<times> string \<times> node) list \<Rightarrow> state \<Rightarrow> (py_error \<times> state) + state"
where
  "register_all L [] st = Inr st"
| "register_all L ((p, module, entry) # es) st =
     (case register_entry L p module entry st of
        Inl e \<Rightarrow> Inl e
      | Inr st1 \<Rightarrow> register_all L es st1)"

text \<open>
  The file name under which lines 54 to 61 store a git entry: nothing for an entry that
  has \<^verbatim>\<open>resolved\<close>, has no \<^verbatim>\<open>from\<close>, or whose \<^verbatim>\<open>from\<close> does not parse with the scheme
  \<open>git+http\<close> or \<open>git+https\<close>.
\<close>

definition git_filename :: "pylib \<Rightarrow> node \<Rightarrow> string option" where
  "git_filename L entry =
     (case resolved entry of
        Some u \<Rightarrow> None
      | None \<Rightarrow>
         (case from' entry of
            None \<Rightarrow> None
          | Some f \<Rightarrow>
             (case urlparse L f of
                Inl e \<Rightarrow> None
              | Inr pr \<Rightarrow>
                  if scheme pr \<in> {''git+http'', ''git+https''} then
                    let branch' = (if fragment pr \<noteq> [] then fragment pr else ''master'');
                        b0 = os_path_basename (upath pr);
                        b = (if endswith b0 ''.git'' then take (length b0 - 4) b0 else b0)
                    in Some (b @ ''-'' @ branch' @ ''.tgz'')
                  else None)))"

definition no_git_entry :: "pylib \<Rightarrow> string \<Rightarrow> (string \<times> string \<times> node) list \<Rightarrow> bool" where
  "no_git_entry L fn es = list_all (\<lambda>(p, module, entry). git_filename L entry \<noteq> Some fn) es"

text \<open>The paths of the \<^verbatim>\<open>resolved\<close> entries of a list that derive the file name \<open>fn\<close>.\<close>

definition paths_of :: "string \<Rightarrow> (string \<times> string \<times> node) list \<Rightarrow> string set" where
  "paths_of fn es =
     fst ` set (filter (\<lambda>(p, module, entry).
                  case resolved entry of
                    None \<Rightarrow> False
                  | Some u \<Rightarrow> resolved_filename module u = fn) es)"

text \<open>
  A git entry that derives the file name \<open>a-1.0.tgz\<close> of \<open>tarball_node\<close>, and a manifest
  in which \<open>tarball_node\<close> occurs at two depths with a git entry between them.
\<close>

definition git_a :: node where
  "git_a = Node None None None (Some ''git+https://example.com/org/a.git#1.0'') None"

definition twice_a :: "(string \<times> node) list" where
  "twice_a = [(''a'', tarball_node), (''g'', git_node), (''m'', holder_node)]"



section \<open>Properties\<close>

subsection \<open>Referencing paths of a git artifact\<close>

text \<open>
  C1. The claim is that the set of referencing paths of an artifact only grows during
  the walk, also when a git entry derives a file name that is already registered. The
  code stores a new dictionary for every git entry: after the module \<open>a\<close> the artifact
  \<open>repo-master.tgz\<close> is referenced by \<open>node_modules/a\<close>, and after the module \<open>b\<close> of the
  same repository it is referenced by \<open>node_modules/b\<close> alone.
\<close>

theorem git_entry_replaces_paths:
  "collect_deps_recursive lib0 [] [(''a'', git_node)] initial =
     Inr \<lparr>MODULE_MAP = [(''repo-master.tgz'',
            \<lparr>url = ''https://example.com/org/repo.git'', algo = None, chksum = None,
             scm = Some ''git'', branch = Some ''master'', basename = Some ''repo'',
             path = {''node_modules/a''}\<rparr>)], log = []\<rparr>
   \<and> collect_deps_recursive lib0 [] [(''a'', git_node), (''b'', git_node)] initial =
     Inr \<lparr>MODULE_MAP = [(''repo-master.tgz'',
            \<lparr>url = ''https://example.com/org/repo.git'', algo = None, chksum = None,
             scm = Some ''git'', branch = Some ''master'', basename = Some ''repo'',
             path = {''node_modules/b''}\<rparr>)], log = []\<rparr>"
  by code_simp

subsection \<open>The checksum file\<close>

text \<open>
  C2. The claim is that the checksum writer completes when the registry holds a git
  artifact, with one line for each artifact that has a checksum. The writer reads
  \<^verbatim>\<open>algo\<close> of every artifact: with a registry tarball \<open>a-1.0.tgz\<close> and a git artifact
  \<open>repo-master.tgz\<close> the program ends with \<^verbatim>\<open>KeyError\<close> after the first line.
\<close>

theorem checksum_writer_raises_on_git_artifact:
  "main (env_with (Inr (Some [(''a'', tarball_node), (''b'', git_node)])) offline disk_ok)
        (no_args\<lparr>checksums := Some ''sums''\<rparr>) empty_world =
     Inl (KeyError ''algo'',
       \<lparr>globals = \<lparr>MODULE_MAP =
          [(''a-1.0.tgz'',
            \<lparr>url = ''https://registry.example.org/a/-/a-1.0.tgz'', algo = Some ''sha1'',
             chksum = Some ''deadbeef'', scm = None, branch = None, basename = None,
             path = {''node_modules/a''}\<rparr>),
           (''repo-master.tgz'',
            \<lparr>url = ''https://example.com/org/repo.git'', algo = None, chksum = None,
             scm = Some ''git'', branch = Some ''master'', basename = Some ''repo'',
             path = {''node_modules/b''}\<rparr>)],
          log = [(INFO, ''main'', [])]\<rparr>,
        files = [(''sums'', ''SHA1 (a-1.0.tgz) = deadbeef'' @ [CHR 0x0A])], dirs = []\<rparr>)"
  by code_simp

subsection \<open>Failures of the downloader\<close>

text \<open>
  C9. The claim is that a failure for one artifact (clone, archive, checksum mismatch or
  HTTP error) is logged, that the downloader goes on with the next artifact, and that no
  partial file is left and no existing file is touched. The call of \<^verbatim>\<open>urlopen\<close> stands
  before the \<^verbatim>\<open>try\<close> whose handler logs \<^verbatim>\<open>HTTPError\<close>: with two tarballs of which the
  first answers 404, the program ends with the exception and \<open>b-1.0.tgz\<close>, which the
  network would deliver with the right digest, is never fetched. The \<^verbatim>\<open>finally\<close> clause
  renames the new file also after a failed write: a write that stops after \<open>da\<close> replaces
  the existing \<open>a-1.0.tgz\<close> by the partial data.
\<close>

theorem http_error_ends_the_downloader:
  "main (env_with (Inr (Some [(''a'', tarball_node), (''b'', tarball_b)])) net_404 disk_ok)
        (no_args\<lparr>download := True\<rparr>) empty_world =
     Inl (HTTPError 404,
       \<lparr>globals = \<lparr>MODULE_MAP =
          [(''a-1.0.tgz'',
            \<lparr>url = ''https://registry.example.org/a/-/a-1.0.tgz'', algo = Some ''sha1'',
             chksum = Some ''deadbeef'', scm = None, branch = None, basename = None,
             path = {''node_modules/a''}\<rparr>),
           (''b-1.0.tgz'',
            \<lparr>url = ''https://registry.example.org/b/-/b-1.0.tgz'', algo = Some ''sha1'',
             chksum = Some ''deadbeef'', scm = None, branch = None, basename = None,
             path = {''node_modules/b''}\<rparr>)],
          log = [(INFO, ''main'', []),
                 (INFO, ''fetching %s as %s'',
                  [''https://registry.example.org/a/-/a-1.0.tgz'', ''a-1.0.tgz''])]\<rparr>,
        files = [], dirs = []\<rparr>)
   \<and> main (env_with (Inr (Some [(''b'', tarball_b)])) net_404 disk_ok)
        (no_args\<lparr>download := True\<rparr>) empty_world =
     Inr \<lparr>globals = \<lparr>MODULE_MAP =
          [(''b-1.0.tgz'',
            \<lparr>url = ''https://registry.example.org/b/-/b-1.0.tgz'', algo = Some ''sha1'',
             chksum = Some ''deadbeef'', scm = None, branch = None, basename = None,
             path = {''node_modules/b''}\<rparr>)],
          log = [(INFO, ''main'', []),
                 (INFO, ''fetching %s as %s'',
                  [''https://registry.example.org/b/-/b-1.0.tgz'', ''b-1.0.tgz''])]\<rparr>,
        files = [(''b-1.0.tgz'', ''data'')], dirs = []\<rparr>
   \<and> main (env_with (Inr (Some [(''a'', tarball_node)])) net_data disk_full)
        (no_args\<lparr>download := True\<rparr>) (empty_world\<lparr>files := [(''a-1.0.tgz'', ''old'')]\<rparr>) =
     Inr \<lparr>globals = \<lparr>MODULE_MAP =
          [(''a-1.0.tgz'',
            \<lparr>url = ''https://registry.example.org/a/-/a-1.0.tgz'', algo = Some ''sha1'',
             chksum = Some ''deadbeef'', scm = None, branch = None, basename = None,
             path = {''node_modules/a''}\<rparr>)],
          log = [(INFO, ''main'', []),
                 (DEBUG, ''adding If-Modified-Since %s: %s'',
                  [''a-1.0.tgz'', ''Thu, 01 Jan 1970 00:00:00 GMT'']),
                 (INFO, ''fetching %s as %s'',
                  [''https://registry.example.org/a/-/a-1.0.tgz'', ''a-1.0.tgz'']),
                 (ERROR, ''%s'', [''No space left on device''])]\<rparr>,
        files = [(''a-1.0.tgz'', ''da'')], dirs = []\<rparr>"
  by code_simp

subsection \<open>Facts about the registry and the URL parser\<close>

lemma map_of_add_path:
  "map_of (MODULE_MAP (add_path fn p st)) k =
     (if k = fn then map_option (\<lambda>a. a\<lparr>path := insert p (path a)\<rparr>) (map_of (MODULE_MAP st) fn)
      else map_of (MODULE_MAP st) k)"
  by (simp add: add_path_def map_of_map_entry split: option.splits)


lemma map_fst_map_entry: "map fst (AList.map_entry k f xs) = map fst xs"
  by (induction xs) auto

lemma keys_add_path: "map fst (MODULE_MAP (add_path fn p st)) = map fst (MODULE_MAP st)"
  by (simp add: add_path_def map_fst_map_entry)

lemma set_splitnetloc_snd: "set (snd (splitnetloc u)) \<subseteq> set u"
  unfolding splitnetloc_def Let_def
  by (auto dest: set_dropWhileD in_set_dropD)

lemma urlsplit_no_hash:
  assumes "CHR ''#'' \<notin> set f" and "urlsplit L f = Inr r"
  shows "fragment r = []"
proof -
  define url2 where "url2 = filter (\<lambda>c. (of_char c :: nat) \<notin> {9, 10, 13}) (dropWhile (\<lambda>c. (of_char c :: nat) \<le> 32) f)"
  have a: "CHR ''#'' \<notin> set url2"
    using assms(1) unfolding url2_def by (auto dest: set_dropWhileD)
  have b: "CHR ''#'' \<notin> set (drop n url2)" for n
    using a by (auto dest: in_set_dropD)
  have c: "CHR ''#'' \<notin> set (snd (splitnetloc u))" if "CHR ''#'' \<notin> set u" for u
    using that set_splitnetloc_snd by blast
  show ?thesis
    using assms(2) a b c unfolding urlsplit_def Let_def url2_def[symmetric]
    by (auto split: if_splits)
qed

lemma urlparse_no_hash:
  assumes "CHR ''#'' \<notin> set f" and "urlparse L f = Inr r"
  shows "fragment r = []"
  using assms urlsplit_no_hash[of f L]
  by (auto simp: urlparse_def split: sum.splits if_splits)

lemma split_git_http: "split_all CHR ''+'' ''git+http'' = [''git'', ''http'']"
  by code_simp
lemma split_git_https: "split_all CHR ''+'' ''git+https'' = [''git'', ''https'']"
  by code_simp

lemma register_from_git:
  assumes "urlparse L f = Inr r"
      and "scheme r = ''git+http'' \<or> scheme r = ''git+https''"
  shows "register_from L p module f st =
     (let br = (if fragment r \<noteq> [] then fragment r else ''master'');
          b0 = os_path_basename (upath r);
          b = (if endswith b0 ''.git'' then take (length b0 - 4) b0 else b0);
          fn = b @ ''-'' @ br @ ''.tgz''
      in Inr (add_path fn p (st\<lparr>MODULE_MAP := AList.update fn
                \<lparr>url = urlunparse_nofrag (drop 4 (scheme r)) (netloc r) (upath r) (params r) (query r),
                 algo = None, chksum = None, scm = Some ''git'',
                 branch = Some br, basename = Some b, path = {}\<rparr> (MODULE_MAP st)\<rparr>)))"
  using assms by (auto simp: register_from_def Let_def split_git_http split_git_https)

subsection \<open>File names of git entries\<close>

text \<open>
  C6. An entry whose \<^verbatim>\<open>from\<close> is \<open>git+https://example.com/org/repo.git#feature\<close> is
  registered as \<open>repo-feature.tgz\<close> with the branch \<open>feature\<close> and the URL
  \<open>https://example.com/org/repo.git\<close>. For every entry without \<^verbatim>\<open>resolved\<close> whose
  \<^verbatim>\<open>from\<close> has no \<open>#\<close> and parses with the scheme \<open>git+http\<close> or \<open>git+https\<close>, the
  branch is \<open>master\<close> and the file name is the base name of the path, without a final
  \<open>.git\<close>, followed by \<open>-master.tgz\<close>.
\<close>

theorem git_entry_filename:
  "collect_deps_recursive L []
       [(''m'', Node None None None (Some ''git+https://example.com/org/repo.git#feature'') None)]
       initial =
     Inr \<lparr>MODULE_MAP = [(''repo-feature.tgz'',
            \<lparr>url = ''https://example.com/org/repo.git'', algo = None, chksum = None,
             scm = Some ''git'', branch = Some ''feature'', basename = Some ''repo'',
             path = {''node_modules/m''}\<rparr>)], log = []\<rparr>
   \<and> (resolved entry = None \<and> from' entry = Some f \<and> CHR ''#'' \<notin> set f
        \<and> urlparse L f = Inr r \<and> (scheme r = ''git+http'' \<or> scheme r = ''git+https'') \<longrightarrow>
       (let b0 = os_path_basename (upath r);
            b = (if endswith b0 ''.git'' then take (length b0 - 4) b0 else b0)
        in \<exists>st'. register_entry L p module entry st = Inr st'
             \<and> map_of (MODULE_MAP st') (b @ ''-master.tgz'') =
                 Some \<lparr>url = urlunparse_nofrag (drop 4 (scheme r)) (netloc r) (upath r) (params r) (query r),
                       algo = None, chksum = None, scm = Some ''git'',
                       branch = Some ''master'', basename = Some b, path = {p}\<rparr>))"
proof (intro conjI impI)
  show "collect_deps_recursive L []
       [(''m'', Node None None None (Some ''git+https://example.com/org/repo.git#feature'') None)]
       initial =
     Inr \<lparr>MODULE_MAP = [(''repo-feature.tgz'',
            \<lparr>url = ''https://example.com/org/repo.git'', algo = None, chksum = None,
             scm = Some ''git'', branch = Some ''feature'', basename = Some ''repo'',
             path = {''node_modules/m''}\<rparr>)], log = []\<rparr>"
    by code_simp
next
  assume h: "resolved entry = None \<and> from' entry = Some f \<and> CHR ''#'' \<notin> set f
        \<and> urlparse L f = Inr r \<and> (scheme r = ''git+http'' \<or> scheme r = ''git+https'')"
  then have frag: "fragment r = []"
    using urlparse_no_hash by blast
  have "register_entry L p module entry st = register_from L p module f st"
    using h by (simp add: register_entry_def)
  then show "let b0 = os_path_basename (upath r);
            b = (if endswith b0 ''.git'' then take (length b0 - 4) b0 else b0)
        in \<exists>st'. register_entry L p module entry st = Inr st'
             \<and> map_of (MODULE_MAP st') (b @ ''-master.tgz'') =
                 Some \<lparr>url = urlunparse_nofrag (drop 4 (scheme r)) (netloc r) (upath r) (params r) (query r),
                       algo = None, chksum = None, scm = Some ''git'',
                       branch = Some ''master'', basename = Some b, path = {p}\<rparr>"
    using h frag register_from_git[of L f r p module st]
    by (simp add: Let_def map_of_add_path update_conv')
qed

theorem git_entry_filename_witness:
  "\<exists>st'. register_entry lib0 ''node_modules/m'' ''m''
            (Node None None None (Some ''git+http://example.com/org/repo'') None) initial = Inr st'
     \<and> map_of (MODULE_MAP st') ''repo-master.tgz'' =
         Some \<lparr>url = ''http://example.com/org/repo'', algo = None, chksum = None,
               scm = Some ''git'', branch = Some ''master'', basename = Some ''repo'',
               path = {''node_modules/m''}\<rparr>"
proof -
  let ?r = "\<lparr>scheme = ''git+http'', netloc = ''example.com'', upath = ''/org/repo'',
             params = [], query = [], fragment = []\<rparr>"
  have p: "urlparse lib0 ''git+http://example.com/org/repo'' = Inr ?r"
    by code_simp
  have b: "os_path_basename ''/org/repo'' = ''repo''" "endswith ''repo'' ''.git'' = False"
    "urlunparse_nofrag ''http'' ''example.com'' ''/org/repo'' [] [] = ''http://example.com/org/repo''"
    by code_simp+
  show ?thesis
    using git_entry_filename[of lib0 "Node None None None (Some ''git+http://example.com/org/repo'') None"
        "''git+http://example.com/org/repo''" ?r "''node_modules/m''" "''m''" initial] p b
    by (simp add: Let_def)
qed

subsection \<open>Two resolved entries with one file name\<close>


text \<open>
  C3. The claim is that two \<^verbatim>\<open>resolved\<close> entries with one file name never raise: a
  difference is logged, the descriptor seen first is kept, the path is added and the walk
  goes on. The modules \<open>a\<close> and \<open>c\<close> come from the registry and both derive
  \<open>a-1.0.tgz\<close>, from different URLs; the git entry \<open>b\<close> derives \<open>a-1.0.tgz\<close> as well.
  Visited between \<open>a\<close> and \<open>c\<close>, the entry \<open>b\<close> stores its dictionary in the place of the
  one of \<open>a\<close>, and at \<open>c\<close> the comparison reads \<^verbatim>\<open>algo\<close> of a dictionary that has
  none: the walk ends with \<^verbatim>\<open>KeyError\<close>, whether \<open>c\<close> differs from \<open>a\<close> or repeats
  it; nothing is logged, the descriptor of \<open>a\<close> is lost and the path of \<open>c\<close> is not
  added. Without \<open>b\<close> the difference is logged, the descriptor of \<open>a\<close> is kept and both
  paths are recorded.
\<close>

theorem git_entry_between_resolved_entries:
  "collect_deps_recursive lib0 []
       [(''a'', tarball_node), (''b'', git_a), (''c'', conflicting_node)] initial =
     Inl (KeyError ''algo'',
       \<lparr>MODULE_MAP = [(''a-1.0.tgz'',
            \<lparr>url = ''https://example.com/org/a.git'', algo = None, chksum = None,
             scm = Some ''git'', branch = Some ''1.0'', basename = Some ''a'',
             path = {''node_modules/b''}\<rparr>)], log = []\<rparr>)
   \<and> collect_deps_recursive lib0 []
       [(''a'', tarball_node), (''b'', git_a), (''c'', tarball_node)] initial =
     Inl (KeyError ''algo'',
       \<lparr>MODULE_MAP = [(''a-1.0.tgz'',
            \<lparr>url = ''https://example.com/org/a.git'', algo = None, chksum = None,
             scm = Some ''git'', branch = Some ''1.0'', basename = Some ''a'',
             path = {''node_modules/b''}\<rparr>)], log = []\<rparr>)
   \<and> collect_deps_recursive lib0 [] [(''a'', tarball_node), (''c'', conflicting_node)] initial =
     Inr \<lparr>MODULE_MAP = [(''a-1.0.tgz'',
            \<lparr>url = ''https://registry.example.org/a/-/a-1.0.tgz'', algo = Some ''sha1'',
             chksum = Some ''deadbeef'', scm = None, branch = None, basename = None,
             path = {''node_modules/a'', ''node_modules/c''}\<rparr>)],
          log = [(ERROR, ''%s: mismatch %s <> %s, %s:%s <> %s:%s'',
                  [''c'', ''https://registry.example.org/a/-/a-1.0.tgz'',
                   ''https://mirror.example.org/a-1.0.tgz'', ''sha1'', ''deadbeef'',
                   ''sha1'', ''000000''])]\<rparr>"
  by code_simp

subsection \<open>The integrity string\<close>

lemma of_char_b64_char:
  "v < 64 \<Longrightarrow> (of_char (b64_char v) :: nat) =
     (if v < 26 then 65 + v else if v < 52 then 71 + v else if v < 62 then v - 4
      else if v = 62 then 43 else 47)"
  by (auto simp: b64_char_def)

lemma b64_value_char: "v < 64 \<Longrightarrow> b64_value (b64_char v) = Some v"
  by (auto simp: b64_value_def Let_def is_upper_def is_lower_def is_digit_def of_char_b64_char
      b64_char_def)


lemma b64_char_plain:
  assumes "v < 64"
  shows "b64_char v \<noteq> CHR ''=''" and "b64_char v \<noteq> CHR ''-''" and "(of_char (b64_char v) :: nat) < 128"
proof -
  have n: "(of_char (b64_char v) :: nat) \<noteq> 61" "(of_char (b64_char v) :: nat) \<noteq> 45"
    using assms by (auto simp: of_char_b64_char)
  show "b64_char v \<noteq> CHR ''=''"
  proof
    assume "b64_char v = CHR ''=''"
    then have "(of_char (b64_char v) :: nat) = of_char CHR ''=''" by simp
    with n(1) show False by simp
  qed
  show "b64_char v \<noteq> CHR ''-''"
  proof
    assume "b64_char v = CHR ''-''"
    then have "(of_char (b64_char v) :: nat) = of_char CHR ''-''" by simp
    with n(2) show False by simp
  qed
  show "(of_char (b64_char v) :: nat) < 128"
    using assms by (auto simp: of_char_b64_char)
qed

lemma unat_bound: "unat (x :: byte) < 256"
proof -
  have "unat x < 2 ^ LENGTH(8)" by (rule unsigned_less)
  then show ?thesis by simp
qed

lemma quot_bounds:
  fixes x :: nat
  assumes "x < 256"
  shows "x div 4 < 64" "x div 16 < 16" "x div 64 < 4"
  using assms by (simp_all add: less_mult_imp_div_less)

lemma dm:
  fixes a b n :: nat
  assumes "b < n"
  shows "(a * n + b) div n = a" "(a * n + b) mod n = b"
  using assms by simp_all

lemma word_of_nat_unat_self: "(of_nat (unat (x :: byte)) :: byte) = x"
  by simp

lemma sextets:
  fixes a b c :: byte
  shows "unat a div 4 < 64" "unat a mod 4 * 16 < 64" "unat a mod 4 * 16 + unat b div 16 < 64"
    "unat b mod 16 * 4 < 64" "unat b mod 16 * 4 + unat c div 64 < 64" "unat c mod 64 < 64"
proof -
  have q: "unat a div 4 < 64" "unat b div 16 < 16" "unat c div 64 < 4"
    using quot_bounds unat_bound by blast+
  have m: "unat a mod 4 < 4" "unat b mod 16 < 16" by simp_all
  show "unat a div 4 < 64" by (rule q)
  show "unat a mod 4 * 16 < 64" using m(1) by linarith
  show "unat a mod 4 * 16 + unat b div 16 < 64" using m(1) q(2) by linarith
  show "unat b mod 16 * 4 < 64" using m(2) by linarith
  show "unat b mod 16 * 4 + unat c div 64 < 64" using m(2) q(3) by linarith
  show "unat c mod 64 < 64" by simp
qed

lemma rebuild:
  fixes a b c :: byte
  shows "(of_nat (unat a div 4 * 4 + (unat a mod 4 * 16 + unat b div 16) div 16) :: byte) = a"
    and "(of_nat ((unat a mod 4 * 16 + unat b div 16) mod 16 * 16 + (unat b mod 16 * 4 + unat c div 64) div 4) :: byte) = b"
    and "(of_nat ((unat b mod 16 * 4 + unat c div 64) mod 4 * 64 + unat c mod 64) :: byte) = c"
    and "(of_nat (unat a div 4 * 4 + (unat a mod 4 * 16) div 16) :: byte) = a"
    and "(of_nat ((unat a mod 4 * 16 + unat b div 16) mod 16 * 16 + (unat b mod 16 * 4) div 4) :: byte) = b"
proof -
  have q: "unat b div 16 < 16" "unat c div 64 < 4"
    using quot_bounds unat_bound by blast+
  have 1: "unat a div 4 * 4 + (unat a mod 4 * 16 + unat b div 16) div 16 = unat a"
    by (simp only: dm(1)[OF q(1)] div_mult_mod_eq)
  have 2: "(unat a mod 4 * 16 + unat b div 16) mod 16 * 16 + (unat b mod 16 * 4 + unat c div 64) div 4 = unat b"
    by (simp only: dm(2)[OF q(1)] dm(1)[OF q(2)] div_mult_mod_eq)
  have 3: "(unat b mod 16 * 4 + unat c div 64) mod 4 * 64 + unat c mod 64 = unat c"
    by (simp only: dm(2)[OF q(2)] div_mult_mod_eq)
  have 4: "unat a div 4 * 4 + (unat a mod 4 * 16) div 16 = unat a"
    by simp
  have 5: "(unat a mod 4 * 16 + unat b div 16) mod 16 * 16 + (unat b mod 16 * 4) div 4 = unat b"
    by (simp only: dm(2)[OF q(1)] nonzero_mult_div_cancel_right div_mult_mod_eq)
  show "(of_nat (unat a div 4 * 4 + (unat a mod 4 * 16 + unat b div 16) div 16) :: byte) = a"
    by (simp only: 1 word_of_nat_unat_self)
  show "(of_nat ((unat a mod 4 * 16 + unat b div 16) mod 16 * 16 + (unat b mod 16 * 4 + unat c div 64) div 4) :: byte) = b"
    by (simp only: 2 word_of_nat_unat_self)
  show "(of_nat ((unat b mod 16 * 4 + unat c div 64) mod 4 * 64 + unat c mod 64) :: byte) = c"
    by (simp only: 3 word_of_nat_unat_self)
  show "(of_nat (unat a div 4 * 4 + (unat a mod 4 * 16) div 16) :: byte) = a"
    by (simp only: 4 word_of_nat_unat_self)
  show "(of_nat ((unat a mod 4 * 16 + unat b div 16) mod 16 * 16 + (unat b mod 16 * 4) div 4) :: byte) = b"
    by (simp only: 5 word_of_nat_unat_self)
qed

lemma a2b_step:
  assumes "v < 64"
  shows "a2b_base64 0 lc pads out (b64_char v # cs) = a2b_base64 1 v 0 out cs"
    and "a2b_base64 1 lc pads out (b64_char v # cs) =
           a2b_base64 2 (v mod 16) 0 (of_nat (lc * 4 + v div 16) # out) cs"
    and "a2b_base64 2 lc pads out (b64_char v # cs) =
           a2b_base64 3 (v mod 4) 0 (of_nat (lc * 16 + v div 4) # out) cs"
    and "a2b_base64 3 lc pads out (b64_char v # cs) =
           a2b_base64 0 0 0 (of_nat (lc * 64 + v) # out) cs"
  using assms b64_char_plain(1)[of v] by (simp_all add: b64_value_char)

lemma a2b_pad:
  shows "a2b_base64 3 lc 0 out (CHR ''='' # cs) = Inr (rev out)"
    and "a2b_base64 2 lc 0 out (CHR ''='' # CHR ''='' # cs) = Inr (rev out)"
  by simp_all

lemma a2b_base64_encode:
  "a2b_base64 0 lc pads out (b64encode bs) = Inr (rev out @ bs)"
proof (induction bs arbitrary: lc pads out rule: b64encode.induct)
  case 1
  show ?case by simp
next
  case (2 a)
  have "a2b_base64 0 lc pads out (b64encode [a]) =
          a2b_base64 2 (unat a mod 4 * 16 mod 16) 0
            (of_nat (unat a div 4 * 4 + unat a mod 4 * 16 div 16) # out) [CHR ''='', CHR ''='']"
    by (simp only: b64encode.simps a2b_step(1)[OF sextets(1)] a2b_step(2)[OF sextets(2)])
  then show ?case
    by (simp only: a2b_pad rebuild) simp
next
  case (3 a b)
  have "a2b_base64 0 lc pads out (b64encode [a, b]) =
          a2b_base64 3 (unat b mod 16 * 4 mod 4) 0
            (of_nat ((unat a mod 4 * 16 + unat b div 16) mod 16 * 16 + unat b mod 16 * 4 div 4)
             # of_nat (unat a div 4 * 4 + (unat a mod 4 * 16 + unat b div 16) div 16) # out)
            [CHR ''='']"
    by (simp only: b64encode.simps a2b_step(1)[OF sextets(1)] a2b_step(2)[OF sextets(3)]
        a2b_step(3)[OF sextets(4)])
  then show ?case
    by (simp only: a2b_pad rebuild) simp
next
  case (4 a b c bs)
  have "a2b_base64 0 lc pads out (b64encode (a # b # c # bs)) =
          a2b_base64 0 0 0
            (of_nat ((unat b mod 16 * 4 + unat c div 64) mod 4 * 64 + unat c mod 64)
             # of_nat ((unat a mod 4 * 16 + unat b div 16) mod 16 * 16
                       + (unat b mod 16 * 4 + unat c div 64) div 4)
             # of_nat (unat a div 4 * 4 + (unat a mod 4 * 16 + unat b div 16) div 16) # out)
            (b64encode bs)"
    by (simp only: b64encode.simps append_Cons append_Nil a2b_step(1)[OF sextets(1)]
        a2b_step(2)[OF sextets(3)] a2b_step(3)[OF sextets(5)] a2b_step(4)[OF sextets(6)])
  then show ?case
    by (simp only: rebuild "4.IH") simp
qed


lemma b64encode_chars:
  "c \<in> set (b64encode bs) \<Longrightarrow> c \<noteq> CHR ''-'' \<and> (of_char c :: nat) < 128"
proof (induction bs rule: b64encode.induct)
  case 1
  then show ?case by simp
next
  case (2 a)
  then show ?case
    using b64_char_plain(2,3)[OF sextets(1), of a] b64_char_plain(2,3)[OF sextets(2), of a]
    by auto
next
  case (3 a b)
  then show ?case
    using b64_char_plain(2,3)[OF sextets(1), of a] b64_char_plain(2,3)[OF sextets(3), of a b]
      b64_char_plain(2,3)[OF sextets(4), of b]
    by auto
next
  case (4 a b c bs)
  then show ?case
    using b64_char_plain(2,3)[OF sextets(1), of a] b64_char_plain(2,3)[OF sextets(3), of a b]
      b64_char_plain(2,3)[OF sextets(5), of b c] b64_char_plain(2,3)[OF sextets(6), of c]
    by auto
qed

lemma b64decode_encode: "b64decode (b64encode bs) = Inr bs"
proof -
  have "is_ascii (b64encode bs)"
    using b64encode_chars by (auto simp: is_ascii_def list_all_iff)
  then show ?thesis
    using a2b_base64_encode[of 0 0 "[]" bs] by (simp add: b64decode_def)
qed

lemma split_max_two:
  assumes "c \<notin> set xs" and "c \<notin> set ys"
  shows "split_max c (Suc (Suc 0)) (xs @ c # ys) = [xs, ys]"
proof -
  have "takeWhile (\<lambda>x. x \<noteq> c) (xs @ c # ys) = xs"
    using assms(1) by (induction xs) auto
  moreover have "dropWhile (\<lambda>x. x \<noteq> c) (xs @ c # ys) = c # ys"
    using assms(1) by (induction xs) auto
  ultimately show ?thesis
    using assms(2) by simp
qed

lemma hex_digit_lower: "n < 16 \<Longrightarrow> is_lower_hex (hex_digit n)"
  by (auto simp: is_lower_hex_def hex_digit_def is_digit_def)

lemma hexlify_lower: "list_all is_lower_hex (hexlify bs)"
proof -
  have "unat b div 16 < 16" "unat b mod 16 < 16" for b :: byte
    using quot_bounds(2)[OF unat_bound] by simp_all
  then show ?thesis
    by (induction bs) (simp_all add: hexlify_def hex_digit_lower)
qed

lemma length_hexlify: "length (hexlify bs) = 2 * length bs"
  by (induction bs) (simp_all add: hexlify_def)

lemma parse_integrity_encoded:
  assumes "CHR ''-'' \<notin> set al"
  shows "parse_integrity (al @ ''-'' @ b64encode bs) = Inr (al, hexlify bs)"
proof -
  have "CHR ''-'' \<notin> set (b64encode bs)"
    using b64encode_chars by blast
  then have "split_max CHR ''-'' (Suc (Suc 0)) (al @ ''-'' @ b64encode bs) = [al, b64encode bs]"
    using split_max_two[OF assms] by simp
  then show ?thesis
    by (simp add: parse_integrity_def b64decode_encode)
qed

text \<open>
  C5. An \<^verbatim>\<open>integrity\<close> string made of an algorithm name without \<open>-\<close>, a \<open>-\<close> and the
  base64 encoding of a digest is split into the algorithm name and the encoding; the
  encoding is decoded to the bytes of the digest, which are written as two lowercase
  hexadecimal digits each. No exception is raised, and an entry whose file name is new
  is registered with this algorithm and this checksum.
\<close>

theorem integrity_is_split_and_hexed:
  "CHR ''-'' \<notin> set al \<longrightarrow>
     parse_integrity (al @ ''-'' @ b64encode bs) = Inr (al, hexlify bs)
   \<and> length (hexlify bs) = 2 * length bs
   \<and> list_all is_lower_hex (hexlify bs)
   \<and> (resolved entry = Some u \<and> integrity entry = Some (al @ ''-'' @ b64encode bs)
        \<and> map_of (MODULE_MAP st) (resolved_filename module u) = None \<longrightarrow>
       (\<exists>st'. register_entry L p module entry st = Inr st'
          \<and> map_of (MODULE_MAP st') (resolved_filename module u) =
              Some \<lparr>url = u, algo = Some al, chksum = Some (hexlify bs), scm = None,
                    branch = None, basename = None, path = {p}\<rparr>))"
proof (intro impI conjI)
  assume al: "CHR ''-'' \<notin> set al"
  show pi: "parse_integrity (al @ ''-'' @ b64encode bs) = Inr (al, hexlify bs)"
    using al by (rule parse_integrity_encoded)
  show "length (hexlify bs) = 2 * length bs"
    by (rule length_hexlify)
  show "list_all is_lower_hex (hexlify bs)"
    by (rule hexlify_lower)
  assume e: "resolved entry = Some u \<and> integrity entry = Some (al @ ''-'' @ b64encode bs)
        \<and> map_of (MODULE_MAP st) (resolved_filename module u) = None"
  then have "register_entry L p module entry st =
      Inr (add_path (resolved_filename module u) p
            (st\<lparr>MODULE_MAP := AList.update (resolved_filename module u)
                 \<lparr>url = u, algo = Some al, chksum = Some (hexlify bs), scm = None,
                  branch = None, basename = None, path = {}\<rparr> (MODULE_MAP st)\<rparr>))"
    using pi by (simp add: register_entry_def register_resolved_def Let_def)
  then show "\<exists>st'. register_entry L p module entry st = Inr st'
          \<and> map_of (MODULE_MAP st') (resolved_filename module u) =
              Some \<lparr>url = u, algo = Some al, chksum = Some (hexlify bs), scm = None,
                    branch = None, basename = None, path = {p}\<rparr>"
    by (simp add: map_of_add_path update_conv')
qed

theorem integrity_is_split_and_hexed_witness:
  "parse_integrity ''sha512-3q2+7w=='' = Inr (''sha512'', ''deadbeef'')
   \<and> (\<exists>st'. register_entry lib0 ''node_modules/a'' ''a''
              (Node None (Some ''https://registry.example.org/a/-/a-1.0.tgz'')
                 (Some ''sha512-3q2+7w=='') None None) initial = Inr st'
          \<and> map_of (MODULE_MAP st') ''a-1.0.tgz'' =
              Some \<lparr>url = ''https://registry.example.org/a/-/a-1.0.tgz'', algo = Some ''sha512'',
                    chksum = Some ''deadbeef'', scm = None, branch = None, basename = None,
                    path = {''node_modules/a''}\<rparr>)"
proof -
  have e: "b64encode [0xDE, 0xAD, 0xBE, 0xEF] = ''3q2+7w==''"
    "hexlify [0xDE, 0xAD, 0xBE, 0xEF] = ''deadbeef''"
    "resolved_filename ''a'' ''https://registry.example.org/a/-/a-1.0.tgz'' = ''a-1.0.tgz''"
    by code_simp+
  have al: "CHR ''-'' \<notin> set ''sha512''" by simp
  show ?thesis
    using integrity_is_split_and_hexed[of "''sha512''" "[0xDE, 0xAD, 0xBE, 0xEF]"
        "Node None (Some ''https://registry.example.org/a/-/a-1.0.tgz'') (Some ''sha512-3q2+7w=='') None None"
        "''https://registry.example.org/a/-/a-1.0.tgz''" initial "''a''" lib0 "''node_modules/a''",
        THEN mp, OF al]
    unfolding e by (simp add: initial_def)
qed

subsection \<open>The walk as a sequence of classifications\<close>

text \<open>
  The walk classifies the entries of \<open>visited\<close> one after the other. A classification
  that returns changes the artifact of one file name at most: the one the entry derives.
  So an artifact with \<^verbatim>\<open>algo\<close> and \<^verbatim>\<open>chksum\<close> keeps its descriptor and collects
  the paths of the \<^verbatim>\<open>resolved\<close> entries that derive its file name, as long as no git
  entry derives it.
\<close>

lemma register_all_append:
  "register_all L (xs @ ys) st =
     (case register_all L xs st of Inl e \<Rightarrow> Inl e | Inr st1 \<Rightarrow> register_all L ys st1)"
  by (induction xs arbitrary: st) (auto split: sum.splits)

lemma set_sorted_keys: "set (sorted_keys ds) = fst ` set ds"
  by (simp add: sorted_keys_def)

lemma loop_register_all:
  "set ks \<subseteq> fst ` set deps \<Longrightarrow>
     collect_deps_loop L d deps ks st = register_all L (visit_loop d deps ks) st"
proof (induction L d deps ks st rule: collect_deps_loop.induct)
  case (1 L d deps st)
  show ?case by simp
next
  case (2 L d deps module rest st)
  from "2.prems" have "module \<in> fst ` set deps" and rest: "set rest \<subseteq> fst ` set deps"
    by simp_all
  then obtain entry where e: "map_of deps module = Some entry"
    by (metis domD dom_map_of_conv_image_fst)
  show ?case
  proof (cases "bundled entry = Some True")
    case True
    with e "2.IH"(1)[OF e True rest] show ?thesis by simp
  next
    case False
    show ?thesis
    proof (cases "register_entry L (module_path d module) module entry st")
      case (Inl x)
      with e False show ?thesis by simp
    next
      case (Inr st1)
      show ?thesis
      proof (cases "dependencies entry")
        case None
        with e False Inr "2.IH"(2)[OF e False Inr None rest] show ?thesis by simp
      next
        case (Some ds)
        have n: "collect_deps_loop L (module_path d module) ds (sorted_keys ds) st1 =
                 register_all L (visit_loop (module_path d module) ds (sorted_keys ds)) st1"
          using "2.IH"(3)[OF e False Inr Some] by (simp add: set_sorted_keys)
        show ?thesis
        proof (cases "collect_deps_loop L (module_path d module) ds (sorted_keys ds) st1")
          case (Inl x)
          with n have r: "register_all L (visit_loop (module_path d module) ds (sorted_keys ds)) st1 = Inl x"
            by simp
          from e False Inr Some Inl show ?thesis by (simp add: register_all_append r)
        next
          case (Inr st2)
          with n have r: "register_all L (visit_loop (module_path d module) ds (sorted_keys ds)) st1 = Inr st2"
            by simp
          have t: "collect_deps_loop L d deps rest st2 = register_all L (visit_loop d deps rest) st2"
            using "2.IH"(4)[OF e False \<open>register_entry L (module_path d module) module entry st = Inr st1\<close> Some Inr rest] .
          from e False \<open>register_entry L (module_path d module) module entry st = Inr st1\<close> Some Inr
          show ?thesis by (simp add: register_all_append r t)
        qed
      qed
    qed
  qed
qed

lemma walk_register_all:
  "collect_deps_recursive L d deps st = register_all L (visited d deps) st"
  by (simp add: collect_deps_recursive_def visited_def loop_register_all set_sorted_keys)


lemma git_filename_resolved: "resolved e = Some u \<Longrightarrow> git_filename L e = None"
  by (simp add: git_filename_def)

lemma register_entry_other:
  assumes "register_entry L p m e st = Inr st'"
      and "git_filename L e \<noteq> Some fn"
      and "\<And>u. resolved e = Some u \<Longrightarrow> resolved_filename m u \<noteq> fn"
  shows "map_of (MODULE_MAP st') fn = map_of (MODULE_MAP st) fn"
proof (cases "resolved e")
  case (Some u)
  then have "resolved_filename m u \<noteq> fn" by (rule assms(3))
  with assms(1) Some show ?thesis
    by (auto simp: register_entry_def register_resolved_def Let_def map_of_add_path update_conv'
          logging_def split: option.splits sum.splits if_splits prod.splits)
next
  case None
  show ?thesis
  proof (cases "from' e")
    case n: None
    with assms(1) None show ?thesis by (auto simp: register_entry_def logging_def)
  next
    case (Some f)
    show ?thesis
    proof (cases "urlparse L f")
      case (Inl x)
      with assms(1) None Some show ?thesis by (simp add: register_entry_def register_from_def)
    next
      case (Inr r)
      show ?thesis
      proof (cases "scheme r = ''git+http'' \<or> scheme r = ''git+https''")
        case True
        from assms(2) None Some Inr True
        have ne: "(let b0 = os_path_basename (upath r) in
                  (if endswith b0 ''.git'' then take (length b0 - 4) b0 else b0)
                    @ ''-'' @ (if fragment r \<noteq> [] then fragment r else ''master'') @ ''.tgz'') \<noteq> fn"
          by (auto simp: git_filename_def Let_def)
        from assms(1) None Some have "register_from L p m f st = Inr st'"
          by (simp add: register_entry_def)
        with register_from_git[OF Inr True, of p m st] ne show ?thesis
          by (auto simp: Let_def map_of_add_path update_conv')
      next
        case False
        with assms(1) None Some Inr show ?thesis
          by (auto simp: register_entry_def register_from_def logging_def)
      qed
    qed
  qed
qed

lemma register_entry_held:
  assumes "register_entry L p m e st = Inr st'"
      and "resolved e = Some u"
      and "map_of (MODULE_MAP st) (resolved_filename m u) = Some a"
  shows "map_of (MODULE_MAP st') (resolved_filename m u) = Some (a\<lparr>path := insert p (path a)\<rparr>)"
  using assms
  by (auto simp: register_entry_def register_resolved_def Let_def map_of_add_path logging_def
        split: option.splits sum.splits if_splits prod.splits)

lemma register_entry_fresh:
  assumes "register_entry L p m e st = Inr st'"
      and "resolved e = Some u"
      and "map_of (MODULE_MAP st) (resolved_filename m u) = None"
  shows "\<exists>integ al hx. integrity e = Some integ \<and> parse_integrity integ = Inr (al, hx)
           \<and> map_of (MODULE_MAP st') (resolved_filename m u) =
               Some \<lparr>url = u, algo = Some al, chksum = Some hx, scm = None,
                     branch = None, basename = None, path = {p}\<rparr>"
  using assms
  by (auto simp: register_entry_def register_resolved_def Let_def map_of_add_path update_conv'
        split: option.splits sum.splits prod.splits)

lemma register_entry_raises:
  assumes "resolved e = Some u"
      and "map_of (MODULE_MAP st) (resolved_filename m u) = Some a"
      and "algo a = None \<or> chksum a = None"
  shows "\<exists>x. register_entry L p m e st = Inl x"
  using assms
  by (auto simp: register_entry_def register_resolved_def Let_def
        split: option.splits sum.splits prod.splits)

lemma paths_of_Cons:
  "paths_of fn ((p, m, e) # es) =
     (if (case resolved e of None \<Rightarrow> False | Some u \<Rightarrow> resolved_filename m u = fn)
      then insert p (paths_of fn es) else paths_of fn es)"
  by (simp add: paths_of_def)

lemma paths_of_append: "paths_of fn (xs @ ys) = paths_of fn xs \<union> paths_of fn ys"
  by (auto simp: paths_of_def)

lemma paths_of_member:
  "(p, m, e) \<in> set es \<Longrightarrow> resolved e = Some u \<Longrightarrow> resolved_filename m u = fn \<Longrightarrow> p \<in> paths_of fn es"
  by (force simp: paths_of_def)

lemma register_all_held:
  assumes "register_all L es st = Inr st'"
      and "no_git_entry L fn es"
      and "map_of (MODULE_MAP st) fn = Some a"
  shows "map_of (MODULE_MAP st') fn = Some (a\<lparr>path := path a \<union> paths_of fn es\<rparr>)"
  using assms
proof (induction es arbitrary: st a)
  case Nil
  then show ?case by (simp add: paths_of_def)
next
  case (Cons x es)
  obtain p m e where x: "x = (p, m, e)" by (cases x)
  from Cons.prems(1) x obtain st1 where r: "register_entry L p m e st = Inr st1"
    and rest: "register_all L es st1 = Inr st'"
    by (auto split: sum.splits)
  from Cons.prems(2) x have g: "git_filename L e \<noteq> Some fn" and ng: "no_git_entry L fn es"
    by (simp_all add: no_git_entry_def)
  show ?case
  proof (cases "case resolved e of None \<Rightarrow> False | Some u \<Rightarrow> resolved_filename m u = fn")
    case True
    then obtain u where u: "resolved e = Some u" "resolved_filename m u = fn"
      by (auto split: option.splits)
    from register_entry_held[OF r u(1)] Cons.prems(3) u(2)
    have "map_of (MODULE_MAP st1) fn = Some (a\<lparr>path := insert p (path a)\<rparr>)" by simp
    from Cons.IH[OF rest ng this] True x show ?thesis
      by (simp add: paths_of_Cons)
  next
    case False
    then have "\<And>u. resolved e = Some u \<Longrightarrow> resolved_filename m u \<noteq> fn" by auto
    from register_entry_other[OF r g this] Cons.prems(3)
    have "map_of (MODULE_MAP st1) fn = Some a" by simp
    from Cons.IH[OF rest ng this] False x show ?thesis
      by (simp add: paths_of_Cons)
  qed
qed

lemma register_all_absent:
  assumes "register_all L es st = Inr st'"
      and "no_git_entry L fn es"
      and "map_of (MODULE_MAP st) fn = None"
      and "paths_of fn es = {}"
  shows "map_of (MODULE_MAP st') fn = None"
  using assms
proof (induction es arbitrary: st)
  case Nil
  then show ?case by simp
next
  case (Cons x es)
  obtain p m e where x: "x = (p, m, e)" by (cases x)
  from Cons.prems(1) x obtain st1 where r: "register_entry L p m e st = Inr st1"
    and rest: "register_all L es st1 = Inr st'"
    by (auto split: sum.splits)
  from Cons.prems(2) x have g: "git_filename L e \<noteq> Some fn" and ng: "no_git_entry L fn es"
    by (simp_all add: no_git_entry_def)
  from Cons.prems(4) x have f: "\<And>u. resolved e = Some u \<Longrightarrow> resolved_filename m u \<noteq> fn"
    and pe: "paths_of fn es = {}"
    by (auto simp: paths_of_Cons split: if_splits)
  from register_entry_other[OF r g f] Cons.prems(3)
  have "map_of (MODULE_MAP st1) fn = None" by simp
  from Cons.IH[OF rest ng this pe] show ?case .
qed

lemma register_all_first:
  assumes "register_all L (xs @ (p, m, e) # ys) st = Inr st'"
      and "no_git_entry L fn (xs @ (p, m, e) # ys)"
      and "map_of (MODULE_MAP st) fn = None"
      and "paths_of fn xs = {}"
      and "resolved e = Some u" and "resolved_filename m u = fn"
  shows "\<exists>integ al hx. integrity e = Some integ \<and> parse_integrity integ = Inr (al, hx)
           \<and> map_of (MODULE_MAP st') fn =
               Some \<lparr>url = u, algo = Some al, chksum = Some hx, scm = None,
                     branch = None, basename = None, path = paths_of fn (xs @ (p, m, e) # ys)\<rparr>"
proof -
  from assms(1) obtain st0 st1 where a: "register_all L xs st = Inr st0"
    and b: "register_entry L p m e st0 = Inr st1" and c: "register_all L ys st1 = Inr st'"
    by (auto simp: register_all_append split: sum.splits)
  from assms(2) have ng: "no_git_entry L fn xs" "no_git_entry L fn ys"
    by (simp_all add: no_git_entry_def)
  have n0: "map_of (MODULE_MAP st0) fn = None"
    using register_all_absent[OF a ng(1) assms(3) assms(4)] .
  from register_entry_fresh[OF b assms(5)] n0 assms(6)
  obtain integ al hx where i: "integrity e = Some integ" "parse_integrity integ = Inr (al, hx)"
    and m1: "map_of (MODULE_MAP st1) fn =
               Some \<lparr>url = u, algo = Some al, chksum = Some hx, scm = None,
                     branch = None, basename = None, path = {p}\<rparr>"
    by auto
  from register_all_held[OF c ng(2) m1]
  have "map_of (MODULE_MAP st') fn =
          Some \<lparr>url = u, algo = Some al, chksum = Some hx, scm = None,
                branch = None, basename = None, path = insert p (paths_of fn ys)\<rparr>"
    by simp
  moreover have "paths_of fn (xs @ (p, m, e) # ys) = insert p (paths_of fn ys)"
    using assms(4,5,6) by (simp add: paths_of_append paths_of_Cons)
  ultimately show ?thesis using i by simp
qed

lemma register_all_collects:
  assumes "register_all L es st = Inr st'"
      and "no_git_entry L fn es"
      and "map_of (MODULE_MAP st) fn = None"
      and "paths_of fn es \<noteq> {}"
  shows "\<exists>a. map_of (MODULE_MAP st') fn = Some a \<and> path a = paths_of fn es
           \<and> algo a \<noteq> None \<and> chksum a \<noteq> None \<and> scm a = None"
proof -
  let ?P = "\<lambda>(p, m, e). case resolved e of None \<Rightarrow> False | Some u \<Rightarrow> resolved_filename m u = fn"
  from assms(4) obtain x where "x \<in> set es" "?P x"
    by (auto simp: paths_of_def)
  then obtain xs y ys where s: "es = xs @ y # ys" "?P y" "\<forall>z\<in>set xs. \<not> ?P z"
    using split_list_first_prop[of es ?P] by blast
  obtain p m e where y: "y = (p, m, e)" by (cases y)
  from s(2) y obtain u where u: "resolved e = Some u" "resolved_filename m u = fn"
    by (auto split: option.splits)
  from s(3) have e0: "paths_of fn xs = {}"
    by (auto simp: paths_of_def filter_empty_conv)
  from register_all_first[OF assms(1)[unfolded s(1) y] assms(2)[unfolded s(1) y] assms(3) e0 u]
  show ?thesis unfolding s(1) y by auto
qed

lemma register_entry_distinct:
  assumes "register_entry L p m e st = Inr st'" and "distinct (map fst (MODULE_MAP st))"
  shows "distinct (map fst (MODULE_MAP st'))"
proof (cases "resolved e")
  case (Some u)
  with assms show ?thesis
    by (auto simp: register_entry_def register_resolved_def Let_def keys_add_path logging_def
          distinct_update split: option.splits sum.splits if_splits prod.splits)
next
  case None
  show ?thesis
  proof (cases "from' e")
    case n: None
    with assms None show ?thesis by (auto simp: register_entry_def logging_def)
  next
    case (Some f)
    show ?thesis
    proof (cases "urlparse L f")
      case (Inl x)
      with assms(1) None Some show ?thesis by (simp add: register_entry_def register_from_def)
    next
      case (Inr r)
      show ?thesis
      proof (cases "scheme r = ''git+http'' \<or> scheme r = ''git+https''")
        case True
        from assms(1) None Some have "register_from L p m f st = Inr st'"
          by (simp add: register_entry_def)
        with register_from_git[OF Inr True, of p m st] assms(2) show ?thesis
          by (auto simp: Let_def keys_add_path distinct_update)
      next
        case False
        with assms None Some Inr show ?thesis
          by (auto simp: register_entry_def register_from_def logging_def)
      qed
    qed
  qed
qed

lemma register_all_distinct:
  assumes "register_all L es st = Inr st'" and "distinct (map fst (MODULE_MAP st))"
  shows "distinct (map fst (MODULE_MAP st'))"
  using assms
proof (induction es arbitrary: st)
  case Nil
  then show ?case by simp
next
  case (Cons x es)
  obtain p m e where x: "x = (p, m, e)" by (cases x)
  from Cons.prems(1) x obtain st1 where r: "register_entry L p m e st = Inr st1"
    and rest: "register_all L es st1 = Inr st'"
    by (auto split: sum.splits)
  from Cons.IH[OF rest register_entry_distinct[OF r Cons.prems(2)]] show ?case .
qed

subsection \<open>File names of resolved entries\<close>

lemma hd_split_all: "c \<in> set s \<Longrightarrow> hd (split_all c s) = takeWhile (\<lambda>x. x \<noteq> c) s"
  by (cases s) (auto simp: split_all_def)

lemma resolved_filename_prefix:
  "resolved_filename module u = scope_prefix module @ os_path_basename u"
  by (simp add: resolved_filename_def scope_prefix_def hd_split_all Let_def)

text \<open>
  C7, as stated: two entries with different module names, the same \<^verbatim>\<open>resolved\<close> URL and
  the same \<^verbatim>\<open>integrity\<close> become one artifact. The modules \<open>@s/a\<close> and \<open>a\<close> with the same
  tarball become two artifacts, \<open>@s-a-1.0.tgz\<close> and \<open>a-1.0.tgz\<close>.
\<close>

theorem scoped_name_is_another_file:
  "collect_deps_recursive lib0 [] [(''@s/a'', tarball_node), (''a'', tarball_node)] initial =
     Inr \<lparr>MODULE_MAP =
        [(''@s-a-1.0.tgz'',
          \<lparr>url = ''https://registry.example.org/a/-/a-1.0.tgz'', algo = Some ''sha1'',
           chksum = Some ''deadbeef'', scm = None, branch = None, basename = None,
           path = {''node_modules/@s/a''}\<rparr>),
         (''a-1.0.tgz'',
          \<lparr>url = ''https://registry.example.org/a/-/a-1.0.tgz'', algo = Some ''sha1'',
           chksum = Some ''deadbeef'', scm = None, branch = None, basename = None,
           path = {''node_modules/a''}\<rparr>)],
        log = []\<rparr>"
  by code_simp

text \<open>
  C7, amended. The file name of a \<^verbatim>\<open>resolved\<close> entry is the prefix of the module name
  followed by the text of the URL after its last \<open>/\<close>, so it depends on these two only,
  and for one URL two module names with different prefixes give different file names.
  The walk is the classification of the entries of \<open>visited\<close> in sequence. Take a walk
  that starts with an empty registry, and the state after any part \<open>es\<close> of its entries
  that raised no exception and in which no git entry derives the file name. Two entries
  of \<open>es\<close> with the same URL and the same \<^verbatim>\<open>integrity\<close> whose module names have the
  same prefix have one file name; the keys of the registry are distinct; the artifact of
  that file name is referenced by exactly the paths of the \<^verbatim>\<open>resolved\<close> entries of
  \<open>es\<close> that derive it, the two paths among them; and the walk goes on from that state
  with the remaining entries. The descriptor of the artifact is the URL, the algorithm
  and the checksum of the first entry that derived the file name.
\<close>

theorem same_scope_entries_collapse:
  "resolved_filename module u = scope_prefix module @ os_path_basename u
   \<and> (os_path_basename u = os_path_basename u' \<and> scope_prefix module = scope_prefix module' \<longrightarrow>
        resolved_filename module u = resolved_filename module' u')
   \<and> (scope_prefix module \<noteq> scope_prefix module' \<longrightarrow>
        resolved_filename module u \<noteq> resolved_filename module' u)
   \<and> collect_deps_recursive L d deps st = register_all L (visited d deps) st
   \<and> (MODULE_MAP st = [] \<and> visited d deps = es @ rest \<and> register_all L es st = Inr st'
        \<and> no_git_entry L (resolved_filename m1 u) es
        \<and> (p1, m1, e1) \<in> set es \<and> (p2, m2, e2) \<in> set es
        \<and> resolved e1 = Some u \<and> resolved e2 = Some u \<and> integrity e1 = integrity e2
        \<and> scope_prefix m1 = scope_prefix m2 \<longrightarrow>
       resolved_filename m2 u = resolved_filename m1 u
       \<and> distinct (map fst (MODULE_MAP st'))
       \<and> (\<exists>a. map_of (MODULE_MAP st') (resolved_filename m1 u) = Some a
              \<and> path a = paths_of (resolved_filename m1 u) es \<and> p1 \<in> path a \<and> p2 \<in> path a)
       \<and> collect_deps_recursive L d deps st = register_all L rest st')
   \<and> (MODULE_MAP st = [] \<and> visited d deps = xs @ (p1, m1, e1) # ys @ rest
        \<and> register_all L (xs @ (p1, m1, e1) # ys) st = Inr st'
        \<and> no_git_entry L (resolved_filename m1 u) (xs @ (p1, m1, e1) # ys)
        \<and> paths_of (resolved_filename m1 u) xs = {} \<and> resolved e1 = Some u \<longrightarrow>
       (\<exists>integ al hx. integrity e1 = Some integ \<and> parse_integrity integ = Inr (al, hx)
          \<and> map_of (MODULE_MAP st') (resolved_filename m1 u) =
              Some \<lparr>url = u, algo = Some al, chksum = Some hx, scm = None, branch = None,
                    basename = None,
                    path = paths_of (resolved_filename m1 u) (xs @ (p1, m1, e1) # ys)\<rparr>))"
proof (intro conjI impI)
  show "resolved_filename module u = scope_prefix module @ os_path_basename u"
    by (rule resolved_filename_prefix)
  show "resolved_filename module u = resolved_filename module' u'"
    if "os_path_basename u = os_path_basename u' \<and> scope_prefix module = scope_prefix module'"
    using that by (simp add: resolved_filename_prefix)
  show "resolved_filename module u \<noteq> resolved_filename module' u"
    if "scope_prefix module \<noteq> scope_prefix module'"
    using that by (simp add: resolved_filename_prefix)
  show w: "collect_deps_recursive L d deps st = register_all L (visited d deps) st"
    by (rule walk_register_all)
next
  assume h: "MODULE_MAP st = [] \<and> visited d deps = es @ rest \<and> register_all L es st = Inr st'
        \<and> no_git_entry L (resolved_filename m1 u) es
        \<and> (p1, m1, e1) \<in> set es \<and> (p2, m2, e2) \<in> set es
        \<and> resolved e1 = Some u \<and> resolved e2 = Some u \<and> integrity e1 = integrity e2
        \<and> scope_prefix m1 = scope_prefix m2"
  let ?fn = "resolved_filename m1 u"
  show fn2: "resolved_filename m2 u = ?fn"
    using h by (simp add: resolved_filename_prefix)
  from h have r: "register_all L es st = Inr st'" and g: "no_git_entry L ?fn es"
    and n: "map_of (MODULE_MAP st) ?fn = None" and dst: "distinct (map fst (MODULE_MAP st))"
    by simp_all
  show "distinct (map fst (MODULE_MAP st'))"
    using register_all_distinct[OF r dst] .
  have i1: "p1 \<in> paths_of ?fn es"
    using h paths_of_member[of p1 m1 e1 es u ?fn] by simp
  have i2: "p2 \<in> paths_of ?fn es"
    using h fn2 paths_of_member[of p2 m2 e2 es u ?fn] by simp
  from i1 have "paths_of ?fn es \<noteq> {}" by auto
  from register_all_collects[OF r g n this] i1 i2
  show "\<exists>a. map_of (MODULE_MAP st') ?fn = Some a
              \<and> path a = paths_of ?fn es \<and> p1 \<in> path a \<and> p2 \<in> path a"
    by auto
  show "collect_deps_recursive L d deps st = register_all L rest st'"
    using h by (simp add: walk_register_all register_all_append)
next
  assume h: "MODULE_MAP st = [] \<and> visited d deps = xs @ (p1, m1, e1) # ys @ rest
        \<and> register_all L (xs @ (p1, m1, e1) # ys) st = Inr st'
        \<and> no_git_entry L (resolved_filename m1 u) (xs @ (p1, m1, e1) # ys)
        \<and> paths_of (resolved_filename m1 u) xs = {} \<and> resolved e1 = Some u"
  let ?fn = "resolved_filename m1 u"
  from h have r: "register_all L (xs @ (p1, m1, e1) # ys) st = Inr st'"
    and g: "no_git_entry L ?fn (xs @ (p1, m1, e1) # ys)"
    and n: "map_of (MODULE_MAP st) ?fn = None" and e: "paths_of ?fn xs = {}"
    and u: "resolved e1 = Some u"
    by simp_all
  show "\<exists>integ al hx. integrity e1 = Some integ \<and> parse_integrity integ = Inr (al, hx)
          \<and> map_of (MODULE_MAP st') ?fn =
              Some \<lparr>url = u, algo = Some al, chksum = Some hx, scm = None, branch = None,
                    basename = None, path = paths_of ?fn (xs @ (p1, m1, e1) # ys)\<rparr>"
    using register_all_first[OF r g n e u refl] .
qed

theorem same_scope_entries_collapse_witness:
  "resolved_filename ''alias'' ''https://mirror.example.org/x/a-1.0.tgz'' =
     resolved_filename ''a'' ''https://registry.example.org/a/-/a-1.0.tgz''
   \<and> resolved_filename ''@s/a'' ''https://registry.example.org/a/-/a-1.0.tgz'' \<noteq>
       resolved_filename ''a'' ''https://registry.example.org/a/-/a-1.0.tgz''
   \<and> (\<exists>st'. collect_deps_recursive lib0 [] twice_a initial = Inr st'
        \<and> map fst (MODULE_MAP st') = [''a-1.0.tgz'', ''repo-master.tgz'']
        \<and> map_of (MODULE_MAP st') ''a-1.0.tgz'' =
            Some \<lparr>url = ''https://registry.example.org/a/-/a-1.0.tgz'', algo = Some ''sha1'',
                  chksum = Some ''deadbeef'', scm = None, branch = None, basename = None,
                  path = {''node_modules/a'', ''node_modules/m/node_modules/x''}\<rparr>)"
proof -
  note T = same_scope_entries_collapse
  let ?u = "''https://registry.example.org/a/-/a-1.0.tgz''"
  have b: "os_path_basename ''https://mirror.example.org/x/a-1.0.tgz'' = os_path_basename ?u
      \<and> scope_prefix ''alias'' = scope_prefix ''a''"
    by code_simp
  have 1: "resolved_filename ''alias'' ''https://mirror.example.org/x/a-1.0.tgz'' =
     resolved_filename ''a'' ?u"
    using T[where module = "''alias''"
        and u = "''https://mirror.example.org/x/a-1.0.tgz''" and u' = ?u and module' = "''a''",
        THEN conjunct2, THEN conjunct1, THEN mp, OF b] .
  have c: "scope_prefix ''@s/a'' \<noteq> scope_prefix ''a''"
    by code_simp
  have 2: "resolved_filename ''@s/a'' ?u \<noteq> resolved_filename ''a'' ?u"
    using T[where module = "''@s/a''" and u = ?u and module' = "''a''", THEN conjunct2, THEN conjunct2, THEN conjunct1, THEN mp, OF c] .
  let ?E1 = "(''node_modules/a'', ''a'', tarball_node)"
  let ?E2 = "(''node_modules/m/node_modules/x'', ''x'', tarball_node)"
  let ?ys = "[(''node_modules/g'', ''g'', git_node), (''node_modules/m'', ''m'', holder_node), ?E2]"
  let ?es = "?E1 # ?ys"
  let ?st' = "\<lparr>MODULE_MAP =
        [(''a-1.0.tgz'',
          \<lparr>url = ?u, algo = Some ''sha1'', chksum = Some ''deadbeef'', scm = None,
           branch = None, basename = None,
           path = {''node_modules/a'', ''node_modules/m/node_modules/x''}\<rparr>),
         (''repo-master.tgz'',
          \<lparr>url = ''https://example.com/org/repo.git'', algo = None, chksum = None,
           scm = Some ''git'', branch = Some ''master'', basename = Some ''repo'',
           path = {''node_modules/g''}\<rparr>)],
        log = [(WARNING, ''entry %s has no download'', [''m''])]\<rparr>"
  have f: "resolved_filename ''a'' ?u = ''a-1.0.tgz''"
    by code_simp
  have v: "visited [] twice_a = ?es @ []"
    by code_simp
  have r: "register_all lib0 ?es initial = Inr ?st'"
    by code_simp
  have g: "no_git_entry lib0 ''a-1.0.tgz'' ?es"
    by code_simp
  have h5: "MODULE_MAP initial = [] \<and> visited [] twice_a = ?es @ [] \<and> register_all lib0 ?es initial = Inr ?st'
        \<and> no_git_entry lib0 (resolved_filename ''a'' ?u) ?es
        \<and> ?E1 \<in> set ?es \<and> ?E2 \<in> set ?es
        \<and> resolved tarball_node = Some ?u \<and> resolved tarball_node = Some ?u
        \<and> integrity tarball_node = integrity tarball_node
        \<and> scope_prefix ''a'' = scope_prefix ''x''"
    using v r g unfolding f by (simp add: initial_def tarball_node_def scope_prefix_def)
  have 3: "collect_deps_recursive lib0 [] twice_a initial = register_all lib0 [] ?st'
      \<and> distinct (map fst (MODULE_MAP ?st'))
      \<and> (\<exists>a. map_of (MODULE_MAP ?st') (resolved_filename ''a'' ?u) = Some a
           \<and> ''node_modules/a'' \<in> path a \<and> ''node_modules/m/node_modules/x'' \<in> path a)"
    using T[where st = initial and d = "[]" and deps = twice_a and es = ?es and rest = "[]"
        and L = lib0 and st' = ?st' and ?m1.0 = "''a''" and u = ?u and ?p1.0 = "''node_modules/a''"
        and ?e1.0 = tarball_node and ?p2.0 = "''node_modules/m/node_modules/x''" and ?m2.0 = "''x''"
        and ?e2.0 = tarball_node, THEN conjunct2, THEN conjunct2, THEN conjunct2, THEN conjunct2, THEN conjunct1, THEN mp, OF h5]
    by blast
  have h6: "MODULE_MAP initial = [] \<and> visited [] twice_a = [] @ ?E1 # ?ys @ []
        \<and> register_all lib0 ([] @ ?E1 # ?ys) initial = Inr ?st'
        \<and> no_git_entry lib0 (resolved_filename ''a'' ?u) ([] @ ?E1 # ?ys)
        \<and> paths_of (resolved_filename ''a'' ?u) [] = {} \<and> resolved tarball_node = Some ?u"
    using v r g unfolding f by (simp add: initial_def tarball_node_def paths_of_def)
  have po: "paths_of ''a-1.0.tgz'' ?es = {''node_modules/a'', ''node_modules/m/node_modules/x''}"
    by code_simp
  have 4: "\<exists>integ al hx. integrity tarball_node = Some integ \<and> parse_integrity integ = Inr (al, hx)
          \<and> map_of (MODULE_MAP ?st') ''a-1.0.tgz'' =
              Some \<lparr>url = ?u, algo = Some al, chksum = Some hx, scm = None, branch = None,
                    basename = None, path = {''node_modules/a'', ''node_modules/m/node_modules/x''}\<rparr>"
    using T[where st = initial and d = "[]" and deps = twice_a and xs = "[]" and ys = ?ys
        and rest = "[]" and L = lib0 and st' = ?st' and ?m1.0 = "''a''" and u = ?u
        and ?p1.0 = "''node_modules/a''" and ?e1.0 = tarball_node, THEN conjunct2, THEN conjunct2, THEN conjunct2, THEN conjunct2, THEN conjunct2, THEN mp, OF h6]
    unfolding f by (simp only: append_Nil po)
  have 5: "collect_deps_recursive lib0 [] twice_a initial = Inr ?st'"
    using 3 by simp
  have 6: "map_of (MODULE_MAP ?st') ''a-1.0.tgz'' =
            Some \<lparr>url = ?u, algo = Some ''sha1'', chksum = Some ''deadbeef'', scm = None,
                  branch = None, basename = None,
                  path = {''node_modules/a'', ''node_modules/m/node_modules/x''}\<rparr>"
    by simp
  show ?thesis
    using 1 2 5 6 by simp
qed

subsection \<open>Recursion and bundled entries\<close>

lemma map_of_filter_not_bundled:
  assumes "distinct (map fst deps)"
  shows "map_of (filter not_bundled deps) k =
           (case map_of deps k of
              None \<Rightarrow> None
            | Some e \<Rightarrow> if bundled e \<noteq> Some True then Some e else None)"
  using assms
proof (induction deps)
  case Nil
  show ?case by simp
next
  case (Cons kv deps)
  obtain k' e' where kv: "kv = (k', e')" by (cases kv)
  have notin: "k' \<notin> fst ` set deps" using Cons.prems kv by simp
  then have none: "map_of deps k' = None" by (simp add: map_of_eq_None_iff)
  show ?case
  proof (cases "k = k'")
    case True
    then show ?thesis
      using Cons kv none by (simp add: not_bundled_def)
  next
    case False
    then show ?thesis
      using Cons kv by (simp add: not_bundled_def)
  qed
qed

lemma keys_filter_not_bundled:
  assumes "distinct (map fst deps)"
  shows "map fst (filter not_bundled deps) =
           filter (\<lambda>k. \<exists>e. map_of deps k = Some e \<and> bundled e \<noteq> Some True) (map fst deps)"
  using assms
proof (induction deps)
  case Nil
  show ?case by simp
next
  case (Cons kv deps)
  obtain k' e' where kv: "kv = (k', e')" by (cases kv)
  have notin: "k' \<notin> fst ` set deps" using Cons.prems kv by simp
  have "filter (\<lambda>k. \<exists>e. map_of (kv # deps) k = Some e \<and> bundled e \<noteq> Some True) (map fst deps) =
        filter (\<lambda>k. \<exists>e. map_of deps k = Some e \<and> bundled e \<noteq> Some True) (map fst deps)"
    using notin kv by (intro filter_cong) auto
  then show ?case
    using Cons kv by (simp add: not_bundled_def)
qed

lemma sorted_keys_filter_not_bundled:
  assumes "distinct (map fst deps)"
  shows "sorted_keys (filter not_bundled deps) =
           filter (\<lambda>k. \<exists>e. map_of deps k = Some e \<and> bundled e \<noteq> Some True) (sorted_keys deps)"
  by (simp add: sorted_keys_def keys_filter_not_bundled[OF assms] remdups_filter filter_sort)

lemma loop_skips_bundled:
  assumes "distinct (map fst deps)" and "set ks \<subseteq> fst ` set deps"
  shows "collect_deps_loop L d deps ks st =
         collect_deps_loop L d (filter not_bundled deps)
           (filter (\<lambda>k. \<exists>e. map_of deps k = Some e \<and> bundled e \<noteq> Some True) ks) st"
  using assms(2)
proof (induction ks arbitrary: st)
  case Nil
  show ?case by simp
next
  case (Cons k ks)
  then obtain e where e: "map_of deps k = Some e"
    by (cases "map_of deps k") (auto simp: map_of_eq_None_iff)
  have ks: "set ks \<subseteq> fst ` set deps" using Cons.prems by simp
  note IH = Cons.IH[OF ks]
  show ?case
  proof (cases "bundled e = Some True")
    case True
    then show ?thesis using e IH by simp
  next
    case False
    then have e': "map_of (filter not_bundled deps) k = Some e"
      using e by (simp add: map_of_filter_not_bundled[OF assms(1)])
    show ?thesis
      using e e' False IH
      by (simp split: sum.splits option.splits)
  qed
qed

lemma walk_skips_bundled:
  assumes "distinct (map fst deps)"
  shows "collect_deps_recursive L d deps st =
         collect_deps_recursive L d (filter not_bundled deps) st"
proof -
  have "set (sorted_keys deps) \<subseteq> fst ` set deps"
    by (simp add: sorted_keys_def)
  then show ?thesis
    unfolding collect_deps_recursive_def
    using loop_skips_bundled[OF assms] sorted_keys_filter_not_bundled[OF assms] by simp
qed

text \<open>
  C8. For an entry that is not bundled, whatever branch classified it without an
  exception, the loop goes into the \<^verbatim>\<open>dependencies\<close> of the entry, below its path and
  with the state the classification left, and then on to the remaining modules. A bundled
  entry is passed over with the state unchanged, and the whole walk gives the same result
  as on the dictionary without its bundled entries: neither they nor anything below them
  reach the registry, the paths or the log.
\<close>

theorem bundled_entries_are_skipped:
  "(map_of deps module = Some entry \<and> bundled entry \<noteq> Some True
      \<and> register_entry L (module_path d module) module entry st = Inr st1 \<longrightarrow>
     collect_deps_loop L d deps (module # rest) st =
       (case dependencies entry of
          None \<Rightarrow> collect_deps_loop L d deps rest st1
        | Some ds \<Rightarrow>
            (case collect_deps_recursive L (module_path d module) ds st1 of
               Inl e \<Rightarrow> Inl e
             | Inr st2 \<Rightarrow> collect_deps_loop L d deps rest st2)))
   \<and> (map_of deps module = Some entry \<and> bundled entry = Some True \<longrightarrow>
        collect_deps_loop L d deps (module # rest) st = collect_deps_loop L d deps rest st)
   \<and> (distinct (map fst deps) \<longrightarrow>
        collect_deps_recursive L d deps st =
        collect_deps_recursive L d (filter not_bundled deps) st)"
proof (intro conjI impI)
  assume "map_of deps module = Some entry \<and> bundled entry \<noteq> Some True
      \<and> register_entry L (module_path d module) module entry st = Inr st1"
  then show "collect_deps_loop L d deps (module # rest) st =
       (case dependencies entry of
          None \<Rightarrow> collect_deps_loop L d deps rest st1
        | Some ds \<Rightarrow>
            (case collect_deps_recursive L (module_path d module) ds st1 of
               Inl e \<Rightarrow> Inl e
             | Inr st2 \<Rightarrow> collect_deps_loop L d deps rest st2))"
    by (simp add: collect_deps_recursive_def split: option.splits)
next
  assume "map_of deps module = Some entry \<and> bundled entry = Some True"
  then show "collect_deps_loop L d deps (module # rest) st = collect_deps_loop L d deps rest st"
    by simp
next
  assume "distinct (map fst deps)"
  then show "collect_deps_recursive L d deps st =
        collect_deps_recursive L d (filter not_bundled deps) st"
    by (rule walk_skips_bundled)
qed

theorem bundled_entries_are_skipped_witness:
  "collect_deps_loop lib0 [] [(''m'', holder_node)] [''m''] initial =
     Inr \<lparr>MODULE_MAP =
        [(''a-1.0.tgz'',
          \<lparr>url = ''https://registry.example.org/a/-/a-1.0.tgz'', algo = Some ''sha1'',
           chksum = Some ''deadbeef'', scm = None, branch = None, basename = None,
           path = {''node_modules/m/node_modules/x''}\<rparr>)],
        log = [(WARNING, ''entry %s has no download'', [''m''])]\<rparr>
   \<and> collect_deps_loop lib0 [] [(''z'', bundled_node)] [''z''] initial = Inr initial
   \<and> collect_deps_recursive lib0 [] [(''a'', tarball_node), (''z'', bundled_node)] initial =
     Inr \<lparr>MODULE_MAP =
        [(''a-1.0.tgz'',
          \<lparr>url = ''https://registry.example.org/a/-/a-1.0.tgz'', algo = Some ''sha1'',
           chksum = Some ''deadbeef'', scm = None, branch = None, basename = None,
           path = {''node_modules/a''}\<rparr>)],
        log = []\<rparr>"
proof -
  note T = bundled_entries_are_skipped
  let ?w = "logging WARNING ''entry %s has no download'' [''m''] initial"
  have h1: "map_of [(''m'', holder_node)] ''m'' = Some holder_node \<and> bundled holder_node \<noteq> Some True
      \<and> register_entry lib0 (module_path [] ''m'') ''m'' holder_node initial = Inr ?w"
    by (simp add: holder_node_def register_entry_def)
  have n: "dependencies holder_node = Some [(''x'', tarball_node)]"
    by (simp add: holder_node_def)
  have r: "collect_deps_recursive lib0 (module_path [] ''m'') [(''x'', tarball_node)] ?w =
     Inr \<lparr>MODULE_MAP =
        [(''a-1.0.tgz'',
          \<lparr>url = ''https://registry.example.org/a/-/a-1.0.tgz'', algo = Some ''sha1'',
           chksum = Some ''deadbeef'', scm = None, branch = None, basename = None,
           path = {''node_modules/m/node_modules/x''}\<rparr>)],
        log = [(WARNING, ''entry %s has no download'', [''m''])]\<rparr>"
    by code_simp
  have 1: "collect_deps_loop lib0 [] [(''m'', holder_node)] [''m''] initial =
     Inr \<lparr>MODULE_MAP =
        [(''a-1.0.tgz'',
          \<lparr>url = ''https://registry.example.org/a/-/a-1.0.tgz'', algo = Some ''sha1'',
           chksum = Some ''deadbeef'', scm = None, branch = None, basename = None,
           path = {''node_modules/m/node_modules/x''}\<rparr>)],
        log = [(WARNING, ''entry %s has no download'', [''m''])]\<rparr>"
    using T[where deps = "[(''m'', holder_node)]" and module = "''m''" and entry = holder_node
        and L = lib0 and d = "[]" and st = initial and ?st1.0 = ?w and rest = "[]",
        THEN conjunct1, THEN mp, OF h1]
    by (simp only: n r option.case sum.case collect_deps_loop.simps)
  have h2: "map_of [(''z'', bundled_node)] ''z'' = Some bundled_node \<and> bundled bundled_node = Some True"
    by (simp add: bundled_node_def)
  have 2: "collect_deps_loop lib0 [] [(''z'', bundled_node)] [''z''] initial = Inr initial"
    using T[where deps = "[(''z'', bundled_node)]" and module = "''z''" and entry = bundled_node
        and L = lib0 and d = "[]" and st = initial and rest = "[]",
        THEN conjunct2, THEN conjunct1, THEN mp, OF h2]
    by (simp only: collect_deps_loop.simps)
  have d: "distinct (map fst [(''a'', tarball_node), (''z'', bundled_node)])"
    by simp
  have f: "filter not_bundled [(''a'', tarball_node), (''z'', bundled_node)] = [(''a'', tarball_node)]"
    by code_simp
  have w: "collect_deps_recursive lib0 [] [(''a'', tarball_node)] initial =
     Inr \<lparr>MODULE_MAP =
        [(''a-1.0.tgz'',
          \<lparr>url = ''https://registry.example.org/a/-/a-1.0.tgz'', algo = Some ''sha1'',
           chksum = Some ''deadbeef'', scm = None, branch = None, basename = None,
           path = {''node_modules/a''}\<rparr>)],
        log = []\<rparr>"
    by code_simp
  have 3: "collect_deps_recursive lib0 [] [(''a'', tarball_node), (''z'', bundled_node)] initial =
     Inr \<lparr>MODULE_MAP =
        [(''a-1.0.tgz'',
          \<lparr>url = ''https://registry.example.org/a/-/a-1.0.tgz'', algo = Some ''sha1'',
           chksum = Some ''deadbeef'', scm = None, branch = None, basename = None,
           path = {''node_modules/a''}\<rparr>)],
        log = []\<rparr>"
    using T[where deps = "[(''a'', tarball_node), (''z'', bundled_node)]" and L = lib0
        and d = "[]" and st = initial,
        THEN conjunct2, THEN conjunct2, THEN mp, OF d]
    by (simp only: f w)
  show ?thesis
    using 1 2 3 by (intro conjI)
qed

subsection \<open>Fatal conditions and recovered errors\<close>







subsection \<open>The resolution as a function of the manifest\<close>

lemma same_dict_D:
  assumes "same_dict ds ds'"
  shows "distinct (map fst ds)" "distinct (map fst ds')" "fst ` set ds = fst ` set ds'"
    "\<forall>k e e'. map_of ds k = Some e \<and> map_of ds' k = Some e' \<longrightarrow> same_node e e'"
  using assms by (simp_all add: same_dict.simps)

lemma same_node_fields:
  assumes "same_node e e'"
  shows "bundled e = bundled e'" "resolved e = resolved e'" "integrity e = integrity e'"
    "from' e = from' e'"
  using assms by (auto simp: same_node.simps)

lemma same_node_dependencies:
  assumes "same_node e e'"
  shows "(dependencies e = None \<and> dependencies e' = None)
       \<or> (\<exists>ds ds'. dependencies e = Some ds \<and> dependencies e' = Some ds' \<and> same_dict ds ds')"
  using assms by (auto simp: same_node.simps)

lemma same_dict_keys:
  assumes "same_dict ds ds'"
  shows "sorted_keys ds = sorted_keys ds'"
proof -
  have "set (map fst ds) = set (map fst ds')"
    using same_dict_D(3)[OF assms] by simp
  then have "set (remdups (map fst ds)) = set (remdups (map fst ds'))"
    by simp
  then show ?thesis
    unfolding sorted_keys_def
    by (intro sorted_distinct_set_unique) simp_all
qed

lemma same_dict_lookup:
  assumes "same_dict ds ds'" and "map_of ds k = Some e"
  shows "\<exists>e'. map_of ds' k = Some e' \<and> same_node e e'"
proof -
  have keys: "fst ` set ds = fst ` set ds'"
    and rel: "\<forall>k e e'. map_of ds k = Some e \<and> map_of ds' k = Some e' \<longrightarrow> same_node e e'"
    using same_dict_D[OF assms(1)] by blast+
  have "k \<in> fst ` set ds"
    using assms(2) by (metis map_of_eq_None_iff option.distinct(1))
  then have "k \<in> fst ` set ds'" using keys by simp
  then obtain e' where "map_of ds' k = Some e'"
    by (metis map_of_eq_None_iff not_Some_eq)
  then show ?thesis using rel assms(2) by blast
qed

lemma same_dict_lookup_None:
  assumes "same_dict ds ds'" and "map_of ds k = None"
  shows "map_of ds' k = None"
proof -
  have keys: "fst ` set ds = fst ` set ds'"
    using same_dict_D(3)[OF assms(1)] .
  then show ?thesis using assms(2) by (simp add: map_of_eq_None_iff)
qed

lemma register_entry_fields:
  assumes "resolved e = resolved e'" "integrity e = integrity e'" "from' e = from' e'"
  shows "register_entry L p m e st = register_entry L p m e' st"
  using assms by (auto simp: register_entry_def register_resolved_def split: option.splits)


lemma loop_same_dict:
  "same_dict deps deps' \<Longrightarrow>
     collect_deps_loop L d deps ks st = collect_deps_loop L d deps' ks st"
proof (induction L d deps ks st arbitrary: deps' rule: collect_deps_loop.induct)
  case (1 L d deps st)
  show ?case by simp
next
  case (2 L d deps module rest st)
  note sd = "2.prems"
  show ?case
  proof (cases "map_of deps module")
    case None
    then show ?thesis
      using same_dict_lookup_None[OF sd None] by simp
  next
    case (Some e)
    obtain e' where e': "map_of deps' module = Some e'" and sn: "same_node e e'"
      using same_dict_lookup[OF sd Some] by blast
    note f = same_node_fields[OF sn]
    show ?thesis
    proof (cases "bundled e = Some True")
      case True
      then show ?thesis
        using Some e' f(1) "2.IH"(1)[OF Some True sd] by simp
    next
      case False
      let ?p = "module_path d module"
      have reg: "register_entry L ?p module e' st = register_entry L ?p module e st"
        using register_entry_fields[OF f(2) f(3) f(4)] by simp
      show ?thesis
      proof (cases "register_entry L ?p module e st")
        case (Inl x)
        then show ?thesis
          using Some e' f(1) False reg by simp
      next
        case (Inr st1)
        from same_node_dependencies[OF sn] show ?thesis
        proof (elim disjE conjE exE)
          assume n: "dependencies e = None" "dependencies e' = None"
          then show ?thesis
            using Some e' f(1) False reg Inr "2.IH"(2)[OF Some False Inr n(1) sd] by simp
        next
          fix ds ds'
          assume s: "dependencies e = Some ds" "dependencies e' = Some ds'" "same_dict ds ds'"
          have nested: "collect_deps_loop L ?p ds' (sorted_keys ds') st1 =
                        collect_deps_loop L ?p ds (sorted_keys ds) st1"
            using "2.IH"(3)[OF Some False Inr s(1) s(3)] same_dict_keys[OF s(3)] by simp
          show ?thesis
          proof (cases "collect_deps_loop L ?p ds (sorted_keys ds) st1")
            case (Inl y)
            then show ?thesis
              using Some e' f(1) False reg Inr s(1,2) nested by simp
          next
            case st2: (Inr st2)
            then show ?thesis
              using Some e' f(1) False reg Inr s(1,2) nested
                "2.IH"(4)[OF Some False Inr s(1) st2 sd] by simp
          qed
        qed
      qed
    qed
  qed
qed

text \<open>
  C10. Two runs of the resolution on the same manifest, from the same registry and log,
  give the same result: the same file names in the same order, the same descriptor and
  the same set of paths for each, the same log, or the same exception. The order in
  which the objects of the manifest list their keys, at any depth, plays no role, since
  every dictionary is walked in sorted order; a set of paths is compared as a set.
\<close>

theorem resolution_is_a_function_of_the_manifest:
  "same_dict deps deps' \<longrightarrow>
     collect_deps_recursive L d deps st = collect_deps_recursive L d deps' st"
  using loop_same_dict[of deps deps' L d "sorted_keys deps" st] same_dict_keys[of deps deps']
  by (auto simp: collect_deps_recursive_def)

theorem resolution_is_a_function_of_the_manifest_witness:
  "collect_deps_recursive lib0 [] nested_yx initial =
     Inr \<lparr>MODULE_MAP =
        [(''a-1.0.tgz'',
          \<lparr>url = ''https://registry.example.org/a/-/a-1.0.tgz'', algo = Some ''sha1'',
           chksum = Some ''deadbeef'', scm = None, branch = None, basename = None,
           path = {''node_modules/m/node_modules/x''}\<rparr>),
         (''repo-master.tgz'',
          \<lparr>url = ''https://example.com/org/repo.git'', algo = None, chksum = None,
           scm = Some ''git'', branch = Some ''master'', basename = Some ''repo'',
           path = {''node_modules/m/node_modules/y''}\<rparr>),
         (''b-1.0.tgz'',
          \<lparr>url = ''https://registry.example.org/b/-/b-1.0.tgz'', algo = Some ''sha1'',
           chksum = Some ''deadbeef'', scm = None, branch = None, basename = None,
           path = {''node_modules/n''}\<rparr>)],
        log = [(WARNING, ''entry %s has no download'', [''m''])]\<rparr>"
proof -
  have xy: "same_dict [(''x'', tarball_node), (''y'', git_node)] [(''y'', git_node), (''x'', tarball_node)]"
    by (rule dict) (auto simp: tarball_node_def git_node_def intro: leaf split: if_splits)
  have "same_dict nested_xy nested_yx"
    unfolding nested_xy_def nested_yx_def
    by (rule dict) (auto simp: tarball_b_def intro: leaf inner[OF xy] split: if_splits)
  moreover have "collect_deps_recursive lib0 [] nested_xy initial =
     Inr \<lparr>MODULE_MAP =
        [(''a-1.0.tgz'',
          \<lparr>url = ''https://registry.example.org/a/-/a-1.0.tgz'', algo = Some ''sha1'',
           chksum = Some ''deadbeef'', scm = None, branch = None, basename = None,
           path = {''node_modules/m/node_modules/x''}\<rparr>),
         (''repo-master.tgz'',
          \<lparr>url = ''https://example.com/org/repo.git'', algo = None, chksum = None,
           scm = Some ''git'', branch = Some ''master'', basename = Some ''repo'',
           path = {''node_modules/m/node_modules/y''}\<rparr>),
         (''b-1.0.tgz'',
          \<lparr>url = ''https://registry.example.org/b/-/b-1.0.tgz'', algo = Some ''sha1'',
           chksum = Some ''deadbeef'', scm = None, branch = None, basename = None,
           path = {''node_modules/n''}\<rparr>)],
        log = [(WARNING, ''entry %s has no download'', [''m''])]\<rparr>"
    by code_simp
  ultimately show ?thesis
    using resolution_is_a_function_of_the_manifest[of nested_xy nested_yx lib0 "[]" initial]
    by simp
qed

end
